theory Spec2Isabelle
  imports Main "HOL-Library.Sublist" "HOL-Library.Mapping"
begin

section \<open>Bytes, errors and the string helpers of the Go standard library\<close>

text \<open>
  The embedding follows \<^verbatim>\<open>cmd/smelter/split.go\<close>. A Go \<^verbatim>\<open>[]byte\<close> and a Go
  \<^verbatim>\<open>string\<close> are both byte sequences; a \<^typ>\<open>char\<close> of HOL is one byte.
\<close>

type_synonym bytes = string

text \<open>
  The errors the routine can end with: \<^verbatim>\<open>bufio.ErrTooLong\<close> of the line scanner, an
  error value handed back by one of the two YAML packages, a failed file-system call,
  and the run-time panic of an assignment into a nil map.
\<close>

datatype error = ErrTooLong | YAMLError string | PathError string | NilMapPanic

abbreviation LF :: char where "LF \<equiv> CHR 0x0A"

abbreviation CR :: char where "CR \<equiv> CHR 0x0D"

text \<open>\<^verbatim>\<open>strings.HasPrefix\<close>, \<^verbatim>\<open>strings.HasSuffix\<close> and \<^verbatim>\<open>strings.Contains\<close>.\<close>

definition hasPrefix :: "string \<Rightarrow> string \<Rightarrow> bool" where
  "hasPrefix s p = (length p \<le> length s \<and> take (length p) s = p)"

definition hasSuffix :: "string \<Rightarrow> string \<Rightarrow> bool" where
  "hasSuffix s p = (length p \<le> length s \<and> drop (length s - length p) s = p)"

fun contains :: "string \<Rightarrow> string \<Rightarrow> bool" where
  "contains [] sub = (sub = [])"
| "contains (c # cs) sub = (hasPrefix (c # cs) sub \<or> contains cs sub)"

text \<open>
  \<^verbatim>\<open>strings.TrimSpace\<close> removes the leading and the trailing runes that
  \<^verbatim>\<open>unicode.IsSpace\<close> accepts. These are the UTF-8 encodings of those runes: the six
  ASCII ones, U+0085, U+00A0, U+1680, U+2000 to U+200A, U+2028, U+2029, U+202F, U+205F
  and U+3000. A byte that starts no valid encoding decodes to the replacement rune,
  which is no space, so a string starts (ends) with a space rune exactly when it starts
  (ends) with one of these byte sequences.
\<close>

definition whiteSpace :: "string list" where
  "whiteSpace =
    [[CHR 0x09], [CHR 0x0A], [CHR 0x0B], [CHR 0x0C], [CHR 0x0D], [CHR 0x20],
     [CHR 0xC2, CHR 0x85], [CHR 0xC2, CHR 0xA0],
     [CHR 0xE1, CHR 0x9A, CHR 0x80],
     [CHR 0xE2, CHR 0x80, CHR 0x80], [CHR 0xE2, CHR 0x80, CHR 0x81],
     [CHR 0xE2, CHR 0x80, CHR 0x82], [CHR 0xE2, CHR 0x80, CHR 0x83],
     [CHR 0xE2, CHR 0x80, CHR 0x84], [CHR 0xE2, CHR 0x80, CHR 0x85],
     [CHR 0xE2, CHR 0x80, CHR 0x86], [CHR 0xE2, CHR 0x80, CHR 0x87],
     [CHR 0xE2, CHR 0x80, CHR 0x88], [CHR 0xE2, CHR 0x80, CHR 0x89],
     [CHR 0xE2, CHR 0x80, CHR 0x8A],
     [CHR 0xE2, CHR 0x80, CHR 0xA8], [CHR 0xE2, CHR 0x80, CHR 0xA9],
     [CHR 0xE2, CHR 0x80, CHR 0xAF],
     [CHR 0xE2, CHR 0x81, CHR 0x9F],
     [CHR 0xE3, CHR 0x80, CHR 0x80]]"

definition leadingSpace :: "string \<Rightarrow> string option" where
  "leadingSpace s = find (hasPrefix s) whiteSpace"

definition trailingSpace :: "string \<Rightarrow> string option" where
  "trailingSpace s = find (hasSuffix s) whiteSpace"

lemma whiteSpace_nonempty: "w \<in> set whiteSpace \<Longrightarrow> w \<noteq> []"
  by (auto simp: whiteSpace_def)

lemma leadingSpace_Some:
  "leadingSpace s = Some w \<Longrightarrow> w \<noteq> [] \<and> hasPrefix s w \<and> w \<in> set whiteSpace"
  unfolding leadingSpace_def by (auto simp: find_Some_iff whiteSpace_nonempty)

lemma trailingSpace_Some:
  "trailingSpace s = Some w \<Longrightarrow> w \<noteq> [] \<and> hasSuffix s w \<and> w \<in> set whiteSpace"
  unfolding trailingSpace_def by (auto simp: find_Some_iff whiteSpace_nonempty)

function trimLeft :: "string \<Rightarrow> string" where
  "trimLeft s =
    (case leadingSpace s of None \<Rightarrow> s | Some w \<Rightarrow> trimLeft (drop (length w) s))"
  by pat_completeness auto
termination
proof (relation "measure length")
  fix s w assume "leadingSpace s = Some w"
  then have "w \<noteq> []" "length w \<le> length s"
    by (auto dest!: leadingSpace_Some simp: hasPrefix_def)
  then show "(drop (length w) s, s) \<in> measure length" by (cases w) auto
qed simp

function trimRight :: "string \<Rightarrow> string" where
  "trimRight s =
    (case trailingSpace s of None \<Rightarrow> s
     | Some w \<Rightarrow> trimRight (take (length s - length w) s))"
  by pat_completeness auto
termination
proof (relation "measure length")
  fix s w assume "trailingSpace s = Some w"
  then have "w \<noteq> []" "length w \<le> length s"
    by (auto dest!: trailingSpace_Some simp: hasSuffix_def)
  then show "(take (length s - length w) s, s) \<in> measure length" by (cases w) auto
qed simp

declare trimLeft.simps [simp del]

declare trimRight.simps [simp del]

definition trimSpace :: "string \<Rightarrow> string" where
  "trimSpace s = trimRight (trimLeft s)"

section \<open>The Line Sanitizer: \<^verbatim>\<open>clean\<close>\<close>

text \<open>
  \<^verbatim>\<open>bufio.NewScanner\<close> splits with \<^verbatim>\<open>bufio.ScanLines\<close>: a token is the text up to
  the next newline, or up to the end of the input when that text is not empty, with one
  trailing carriage return dropped (\<^verbatim>\<open>dropCR\<close>). The scanner's buffer holds at most
  \<^verbatim>\<open>bufio.MaxScanTokenSize\<close> bytes: a line that does not fit, newline included, ends
  the scan with \<^verbatim>\<open>ErrTooLong\<close>, and so does an unterminated last line of that many
  bytes, for the scanner must read once more to see the end of the input.
\<close>

definition maxScanTokenSize :: nat where
  "maxScanTokenSize = 64 * 1024"

definition dropCR :: "string \<Rightarrow> string" where
  "dropCR data = (if data \<noteq> [] \<and> last data = CR then butlast data else data)"

datatype scan_result = Token string string | ScanEOF | ScanErr error

text \<open>One call of \<^verbatim>\<open>scanner.Scan()\<close> on the unread input: the token and the input left.\<close>

definition scan :: "string \<Rightarrow> scan_result" where
  "scan data =
    (if data = [] then ScanEOF
     else let raw = takeWhile (\<lambda>c. c \<noteq> LF) data;
              rest = dropWhile (\<lambda>c. c \<noteq> LF) data
          in if maxScanTokenSize \<le> length raw then ScanErr ErrTooLong
             else Token (dropCR raw) (drop 1 rest))"

lemma scan_Token_shorter:
  assumes "scan data = Token line rest"
  shows "length rest < length data"
proof -
  from assms have ne: "data \<noteq> []"
    and r: "rest = drop 1 (dropWhile (\<lambda>c. c \<noteq> LF) data)"
    by (auto simp: scan_def Let_def split: if_splits)
  have "length (dropWhile (\<lambda>c. c \<noteq> LF) data) \<le> length data"
    by (rule length_dropWhile_le)
  with ne r show ?thesis by (cases data) auto
qed

text \<open>The test of line 79 and 80 of the source.\<close>

definition skipLine :: "string \<Rightarrow> bool" where
  "skipLine line =
    (contains line ''---'' \<or> hasPrefix (trimSpace line) ''#'' \<or>
     contains line ''helm.sh/chart'' \<or> contains line ''app.kubernetes.io/managed-by'')"

text \<open>
  The loop of \<^verbatim>\<open>clean\<close>, with the unread input and the output buffer as its state.
  \<^verbatim>\<open>bytes.Buffer.WriteString\<close> always returns a nil error, so the only error is the
  scanner's.
\<close>

function clean_loop :: "string \<Rightarrow> string \<Rightarrow> error + string" where
  "clean_loop input output =
    (case scan input of
       ScanEOF \<Rightarrow> Inr output
     | ScanErr e \<Rightarrow> Inl e
     | Token line rest \<Rightarrow>
         if skipLine line then clean_loop rest output
         else clean_loop rest (output @ line @ [LF]))"
  by pat_completeness auto
termination
  by (relation "measure (\<lambda>(input, output). length input)") (auto dest: scan_Token_shorter)

declare clean_loop.simps [simp del]

definition clean :: "bytes \<Rightarrow> error + bytes" where
  "clean input = clean_loop input []"

section \<open>Go values, the YAML packages and the file system\<close>

text \<open>
  The typed view of a manifest, \<^verbatim>\<open>k8sObject\<close> of lines 33 to 42. A Go
  \<^verbatim>\<open>map[string]string\<close> is a finite mapping; its nil and its empty value both have
  length 0 and are the empty mapping here.
\<close>

record metadata =
  Name :: string
  Namespace :: string
  Labels :: "(string, string) mapping"
  Annotations :: "(string, string) mapping"

record k8sObject =
  Kind :: string
  APIVersion :: string
  Metadata :: metadata

text \<open>
  What an \<^verbatim>\<open>interface{}\<close> of this program can hold: the values the YAML decoder
  produces (nil, scalars, slices and maps with arbitrary keys; a \<^verbatim>\<open>float64\<close> is kept
  as its text), and the \<^verbatim>\<open>Metadata\<close> struct that line 131 stores in
  \<^verbatim>\<open>objectMap\<close>, with the string maps it holds.
\<close>

datatype goval =
    GNil
  | GBool bool
  | GInt int
  | GFloat string
  | GString string
  | GSlice "goval list"
  | GMap "(goval \<times> goval) list"
  | GStringMap "(string, string) mapping"
  | GMetadata metadata

text \<open>
  The key and value pairs the YAML encoder writes for what can stand under
  \<^verbatim>\<open>metadata\<close>: a decoded mapping, or the \<^verbatim>\<open>Metadata\<close> struct. For the struct these
  follow the field tags of lines 37 to 40: \<^verbatim>\<open>name\<close> always, the other three only
  when they are not empty (\<^verbatim>\<open>omitempty\<close>).
\<close>

fun fieldsOf :: "goval \<Rightarrow> (goval \<times> goval) list" where
  "fieldsOf (GMap kvs) = kvs"
| "fieldsOf (GMetadata m) =
     [(GString ''name'', GString (Name m))] @
     (if Namespace m = [] then [] else [(GString ''namespace'', GString (Namespace m))]) @
     (if Mapping.is_empty (Labels m) then []
      else [(GString ''labels'', GStringMap (Labels m))]) @
     (if Mapping.is_empty (Annotations m) then []
      else [(GString ''annotations'', GStringMap (Annotations m))])"
| "fieldsOf _ = []"

text \<open>The value of \<^verbatim>\<open>metadata.<key>\<close> in a decoded document, if it has one.\<close>

definition metaField :: "(string \<rightharpoonup> goval) \<Rightarrow> string \<Rightarrow> goval option" where
  "metaField objectMap key =
    (case objectMap ''metadata'' of
       None \<Rightarrow> None
     | Some v \<Rightarrow> map_of (fieldsOf v) (GString key))"

text \<open>
  The file system: the regular files by path, and the directories. \<^verbatim>\<open>utils.Config\<close> is
  declared outside the sources at hand; its three fields are those the routine reads.
\<close>

record fsys =
  files :: "string \<rightharpoonup> bytes"
  dirs :: "string set"

record config =
  cfg_Filename :: string
  cfg_Name :: string
  cfg_Namespace :: string

text \<open>
  What the routine calls and does not define. The two YAML packages:
  \<^item> \<open>goyaml_Decode\<close>: the results of the successive \<^verbatim>\<open>dec.Decode(&value)\<close> calls on a
    stream, up to the one that returns \<^verbatim>\<open>io.EOF\<close>;
  \<^item> \<open>goyaml_Marshal\<close>: \<^verbatim>\<open>goyaml.Marshal(value)\<close>;
  \<^item> \<open>yaml_Unmarshal_map\<close>: \<^verbatim>\<open>yaml.Unmarshal\<close> into a fresh
    \<^verbatim>\<open>map[string]interface{}\<close>, which stays nil (\<open>None\<close>) for a null document;
  \<^item> \<open>yaml_Unmarshal_k8sObject\<close>: \<^verbatim>\<open>yaml.Unmarshal\<close> into a fresh \<^verbatim>\<open>k8sObject\<close>;
  \<^item> \<open>yaml_Marshal\<close>: \<^verbatim>\<open>yaml.Marshal(&objectMap)\<close>.
  An encoder is no function of the value it writes: it walks the maps of the value in the
  order the Go runtime hands out their keys, which differs from one call to the next, and
  the order of the keys it writes can depend on that order. The first argument of the two
  encoders, of type \<open>'r\<close>, stands for what the runtime picks during one call.

  \<^verbatim>\<open>utils.IsClusterScoped\<close>, a function of kind and API version. And the operating system:
  whether \<^verbatim>\<open>os.MkdirAll\<close> and \<^verbatim>\<open>os.WriteFile\<close> fail for a path in a given state.
\<close>

record 'r externals =
  goyaml_Decode :: "bytes \<Rightarrow> (error + goval) list"
  goyaml_Marshal :: "'r \<Rightarrow> goval \<Rightarrow> error + bytes"
  yaml_Unmarshal_map :: "bytes \<Rightarrow> error + (string \<rightharpoonup> goval) option"
  yaml_Unmarshal_k8sObject :: "bytes \<Rightarrow> error + k8sObject"
  yaml_Marshal :: "'r \<Rightarrow> (string \<rightharpoonup> goval) option \<Rightarrow> error + bytes"
  IsClusterScoped :: "string \<Rightarrow> string \<Rightarrow> bool"
  MkdirAll_fails :: "fsys \<Rightarrow> string \<Rightarrow> bool"
  WriteFile_fails :: "fsys \<Rightarrow> string \<Rightarrow> bool"

definition ReadFile :: "fsys \<Rightarrow> string \<Rightarrow> error + bytes" where
  "ReadFile fs name =
    (case files fs name of None \<Rightarrow> Inl (PathError name) | Some data \<Rightarrow> Inr data)"

text \<open>
  \<^verbatim>\<open>os.MkdirAll\<close> creates the directory and every parent that is missing: the
  directories of a path are its prefixes that end where a component ends.
\<close>

definition dirChain :: "string \<Rightarrow> string list" where
  "dirChain path =
    [take i path. i \<leftarrow> [1..<Suc (length path)],
       (i = length path \<or> path ! i = CHR ''/'') \<and> path ! (i - 1) \<noteq> CHR ''/'']"

definition MkdirAll :: "'r externals \<Rightarrow> string \<Rightarrow> fsys \<Rightarrow> error + fsys" where
  "MkdirAll ext path fs =
    (if MkdirAll_fails ext fs path then Inl (PathError path)
     else Inr (fs\<lparr>dirs := dirs fs \<union> set (dirChain path)\<rparr>))"

definition WriteFile :: "'r externals \<Rightarrow> string \<Rightarrow> bytes \<Rightarrow> fsys \<Rightarrow> error + fsys" where
  "WriteFile ext name data fs =
    (if WriteFile_fails ext fs name then Inl (PathError name)
     else Inr (fs\<lparr>files := (files fs)(name \<mapsto> data)\<rparr>))"

section \<open>The Document Splitter: \<^verbatim>\<open>splitYAML\<close>\<close>

text \<open>
  The loop of lines 49 to 67 over the results of the decoder, with \<^verbatim>\<open>res\<close> as its
  state: the end of the list is \<^verbatim>\<open>io.EOF\<close>. \<open>rnd\<close> holds what the runtime picks
  in the calls of the encoder still to come, \<open>rnd 0\<close> in the next one.
\<close>

fun splitYAML_loop ::
  "('r \<Rightarrow> goval \<Rightarrow> error + bytes) \<Rightarrow> (nat \<Rightarrow> 'r) \<Rightarrow> (error + goval) list \<Rightarrow> bytes list \<Rightarrow>
   error + bytes list" where
  "splitYAML_loop marshal rnd [] res = Inr res"
| "splitYAML_loop marshal rnd (Inl err # ds) res = Inl err"
| "splitYAML_loop marshal rnd (Inr v # ds) res =
     (if v = GNil then splitYAML_loop marshal rnd ds res
      else case marshal (rnd 0) v of
             Inl err \<Rightarrow> Inl err
           | Inr valueBytes \<Rightarrow>
               splitYAML_loop marshal (\<lambda>i. rnd (Suc i)) ds (res @ [valueBytes]))"

definition splitYAML :: "'r externals \<Rightarrow> (nat \<Rightarrow> 'r) \<Rightarrow> bytes \<Rightarrow> error + bytes list" where
  "splitYAML ext rnd resources =
    splitYAML_loop (goyaml_Marshal ext) rnd (goyaml_Decode ext resources) []"

section \<open>The Namespace Normalizer\<close>

text \<open>
  Lines 127 to 134. The assignment of line 131 panics when \<^verbatim>\<open>objectMap\<close> is nil.
\<close>

definition setNamespace ::
  "(string \<Rightarrow> string \<Rightarrow> bool) \<Rightarrow> string \<Rightarrow> (string \<rightharpoonup> goval) option \<Rightarrow> k8sObject \<Rightarrow>
   error + ((string \<rightharpoonup> goval) option \<times> k8sObject)" where
  "setNamespace isClusterScoped ns objectMap metadataObject =
    (if \<not> isClusterScoped (Kind metadataObject) (APIVersion metadataObject) then
       if Namespace (Metadata metadataObject) = [] then
         let metadataObject' =
               metadataObject\<lparr>Metadata := (Metadata metadataObject)\<lparr>Namespace := ns\<rparr>\<rparr>
         in case objectMap of
              None \<Rightarrow> Inl NilMapPanic
            | Some m \<Rightarrow>
                Inr (Some (m(''metadata'' \<mapsto> GMetadata (Metadata metadataObject'))),
                     metadataObject')
       else Inr (objectMap, metadataObject)
     else Inr (objectMap, metadataObject))"

text \<open>
  Lines 116 to 134: both decodings of the sanitized document and the namespace step. The
  result is the mapping that goes to the encoder and the typed view.
\<close>

definition prepare ::
  "'r externals \<Rightarrow> string \<Rightarrow> bytes \<Rightarrow> error + ((string \<rightharpoonup> goval) option \<times> k8sObject)" where
  "prepare ext ns cleanres =
    (case yaml_Unmarshal_map ext cleanres of
       Inl err \<Rightarrow> Inl err
     | Inr objectMap \<Rightarrow>
    (case yaml_Unmarshal_k8sObject ext cleanres of
       Inl err \<Rightarrow> Inl err
     | Inr metadataObject \<Rightarrow>
         setNamespace (IsClusterScoped ext) ns objectMap metadataObject))"

text \<open>
  Lines 116 to 140, with the encoding of line 137, in which the runtime picks \<open>r\<close>. The
  result is \<^verbatim>\<open>updatedCleanres\<close> and the typed view, which names the file.
\<close>

definition normalize ::
  "'r externals \<Rightarrow> 'r \<Rightarrow> string \<Rightarrow> bytes \<Rightarrow> error + (bytes \<times> k8sObject)" where
  "normalize ext r ns cleanres =
    (case prepare ext ns cleanres of
       Inl err \<Rightarrow> Inl err
     | Inr (objectMap', metadataObject') \<Rightarrow>
    (case yaml_Marshal ext r objectMap' of
       Inl err \<Rightarrow> Inl err
     | Inr updatedCleanres \<Rightarrow> Inr (updatedCleanres, metadataObject')))"

section \<open>The File Emitter and \<^verbatim>\<open>SplitYAML\<close>\<close>

text \<open>Line 149.\<close>

definition fileName :: "config \<Rightarrow> k8sObject \<Rightarrow> string" where
  "fileName cfg metadataObject =
    ''working/'' @ cfg_Name cfg @ ''/'' @ Kind metadataObject @ ''_'' @
    Name (Metadata metadataObject) @ ''.yaml''"

text \<open>
  Lines 144 to 154. \<^verbatim>\<open>log.Fatal\<close> ends the process: the result is the error it printed,
  if any, and the file system as it is then.
\<close>

definition emit ::
  "'r externals \<Rightarrow> config \<Rightarrow> k8sObject \<Rightarrow> bytes \<Rightarrow> fsys \<Rightarrow> error option \<times> fsys" where
  "emit ext cfg metadataObject updatedCleanres fs =
    (case MkdirAll ext (''working/'' @ cfg_Name cfg) fs of
       Inl err \<Rightarrow> (Some err, fs)
     | Inr fs1 \<Rightarrow>
    (case WriteFile ext (fileName cfg metadataObject) updatedCleanres fs1 of
       Inl err \<Rightarrow> (Some err, fs1)
     | Inr fs2 \<Rightarrow> (None, fs2)))"

text \<open>
  The body of the loop of line 110, in which the runtime picks \<open>r\<close>, and the loop, in
  which it picks \<open>rnd 0\<close> for the first document, \<open>rnd 1\<close> for the second, and so on.
\<close>

definition processDoc ::
  "'r externals \<Rightarrow> config \<Rightarrow> 'r \<Rightarrow> bytes \<Rightarrow> fsys \<Rightarrow> error option \<times> fsys" where
  "processDoc ext cfg r res fs =
    (case clean res of
       Inl err \<Rightarrow> (Some err, fs)
     | Inr cleanres \<Rightarrow>
    (case normalize ext r (cfg_Namespace cfg) cleanres of
       Inl err \<Rightarrow> (Some err, fs)
     | Inr (updatedCleanres, metadataObject) \<Rightarrow>
         emit ext cfg metadataObject updatedCleanres fs))"

fun processDocs ::
  "'r externals \<Rightarrow> config \<Rightarrow> (nat \<Rightarrow> 'r) \<Rightarrow> bytes list \<Rightarrow> fsys \<Rightarrow> error option \<times> fsys" where
  "processDocs ext cfg rnd [] fs = (None, fs)"
| "processDocs ext cfg rnd (res # result) fs =
     (case processDoc ext cfg (rnd 0) res fs of
        (Some err, fs') \<Rightarrow> (Some err, fs')
      | (None, fs') \<Rightarrow> processDocs ext cfg (\<lambda>i. rnd (Suc i)) result fs')"

text \<open>
  \<^verbatim>\<open>SplitYAML\<close> from line 105 on, on the bytes read, and the whole of it. The calls of
  the encoders are numbered through one run: those of the loop come after the one call
  per returned document that \<^verbatim>\<open>splitYAML\<close> has made.
\<close>

definition SplitYAML_data ::
  "'r externals \<Rightarrow> config \<Rightarrow> (nat \<Rightarrow> 'r) \<Rightarrow> bytes \<Rightarrow> fsys \<Rightarrow> error option \<times> fsys" where
  "SplitYAML_data ext cfg rnd data fs =
    (case splitYAML ext rnd data of
       Inl err \<Rightarrow> (Some err, fs)
     | Inr result \<Rightarrow> processDocs ext cfg (\<lambda>i. rnd (length result + i)) result fs)"

definition SplitYAML ::
  "'r externals \<Rightarrow> config \<Rightarrow> (nat \<Rightarrow> 'r) \<Rightarrow> fsys \<Rightarrow> error option \<times> fsys" where
  "SplitYAML ext cfg rnd fs =
    (case ReadFile fs (cfg_Filename cfg) of
       Inl err \<Rightarrow> (Some err, fs)
     | Inr data \<Rightarrow> SplitYAML_data ext cfg rnd data fs)"

section \<open>The contracts in the specification's words\<close>

text \<open>
  The lines of an input: the text between newlines, and a last line without a newline
  when it is not empty. \<open>rawLines\<close> keeps a trailing carriage return; the scanner's
  line is \<open>dropCR\<close> of it.
\<close>

fun linesFrom :: "string \<Rightarrow> string \<Rightarrow> string list" where
  "linesFrom cur [] = (if cur = [] then [] else [cur])"
| "linesFrom cur (c # cs) = (if c = LF then cur # linesFrom [] cs else linesFrom (cur @ [c]) cs)"

definition rawLines :: "string \<Rightarrow> string list" where
  "rawLines input = linesFrom [] input"

text \<open>
  The lines the specification removes: those that hold \<^verbatim>\<open>---\<close>, those that start
  with \<^verbatim>\<open>#\<close> once leading white space is trimmed, and those that hold one of
  the two provenance substrings.
\<close>

definition spec_removed :: "string \<Rightarrow> bool" where
  "spec_removed line =
    (sublist ''---'' line \<or> prefix ''#'' (trimLeft line) \<or>
     sublist ''helm.sh/chart'' line \<or> sublist ''app.kubernetes.io/managed-by'' line)"

text \<open>The kept lines as they are written out: each followed by a newline.\<close>

definition render :: "string list \<Rightarrow> string" where
  "render ls = concat (map (\<lambda>l. l @ [LF]) ls)"

text \<open>Whether a decoded document has a \<^verbatim>\<open>metadata.namespace\<close> field.\<close>

definition hasNamespaceField :: "(string \<rightharpoonup> goval) option \<Rightarrow> bool" where
  "hasNamespaceField objectMap =
    (case objectMap of None \<Rightarrow> False | Some m \<Rightarrow> metaField m ''namespace'' \<noteq> None)"

text \<open>
  The part of the loop body that touches no file: the sanitized and normalized bytes of
  a document and its typed view, when the runtime picks \<open>r\<close> in the encoder.
\<close>

definition docResult ::
  "'r externals \<Rightarrow> config \<Rightarrow> 'r \<Rightarrow> bytes \<Rightarrow> error + (bytes \<times> k8sObject)" where
  "docResult ext cfg r res =
    (case clean res of
       Inl err \<Rightarrow> Inl err
     | Inr cleanres \<Rightarrow> normalize ext r (cfg_Namespace cfg) cleanres)"

text \<open>The files a run over a batch writes when no step fails: a later write replaces an earlier one.\<close>

fun batchFiles ::
  "'r externals \<Rightarrow> config \<Rightarrow> (nat \<Rightarrow> 'r) \<Rightarrow> bytes list \<Rightarrow> (string \<rightharpoonup> bytes)" where
  "batchFiles ext cfg rnd [] = Map.empty"
| "batchFiles ext cfg rnd (res # result) =
     (case docResult ext cfg (rnd 0) res of
        Inl err \<Rightarrow> Map.empty
      | Inr (data, metadataObject) \<Rightarrow>
          [fileName cfg metadataObject \<mapsto> data] ++ batchFiles ext cfg (\<lambda>i. rnd (Suc i)) result)"

section \<open>Concrete inputs\<close>

text \<open>
  The two encoders write the keys of a map sorted, from the order in which the runtime
  hands them out, with \<^verbatim>\<open>sort.Sort\<close> on the order \<^verbatim>\<open>keyList.Less\<close> of the package.
  On string keys that order compares the first runes that differ: two letters by their
  code, a letter after anything else, and otherwise the numbers that start there, then
  the lengths of their digits, then the codes; here it is on keys of ASCII characters.
  It is not transitive: \<^verbatim>\<open>2\<close> is less than \<^verbatim>\<open>10\<close>, that less than \<^verbatim>\<open>1a\<close>,
  and that less than \<^verbatim>\<open>2\<close>. \<^verbatim>\<open>sort.Sort\<close> is an insertion sort on a list of
  at most six elements.
\<close>

definition isLetter :: "char \<Rightarrow> bool" where
  "isLetter c = (let n = (of_char c :: nat) in (65 \<le> n \<and> n \<le> 90) \<or> (97 \<le> n \<and> n \<le> 122))"

definition isDigit :: "char \<Rightarrow> bool" where
  "isDigit c = (let n = (of_char c :: nat) in 48 \<le> n \<and> n \<le> 57)"

definition number :: "int \<Rightarrow> string \<Rightarrow> int" where
  "number n0 ds = foldl (\<lambda>n c. n * 10 + (of_char c - 48)) n0 ds"

text \<open>\<open>pre\<close> is the common prefix passed so far, last rune first.\<close>

fun keyList_Less_loop :: "string \<Rightarrow> string \<Rightarrow> string \<Rightarrow> bool" where
  "keyList_Less_loop pre [] br = (br \<noteq> [])"
| "keyList_Less_loop pre (a # ar) [] = False"
| "keyList_Less_loop pre (a # ar) (b # br) =
     (if a = b then keyList_Less_loop (a # pre) ar br
      else if isLetter a \<and> isLetter b then (of_char a :: nat) < of_char b
      else if isLetter a \<or> isLetter b then isLetter b
      else
        let n0 = (if (a = CHR ''0'' \<or> b = CHR ''0'') \<and>
                     list_ex (\<lambda>c. c \<noteq> CHR ''0'') (takeWhile isDigit pre) then 1 else 0);
            da = takeWhile isDigit (a # ar);
            db = takeWhile isDigit (b # br);
            an = number n0 da;
            bn = number n0 db
        in if an \<noteq> bn then an < bn
           else if length da \<noteq> length db then length da < length db
           else (of_char a :: nat) < of_char b)"

definition keyList_Less :: "string \<Rightarrow> string \<Rightarrow> bool" where
  "keyList_Less a b = keyList_Less_loop [] a b"

text \<open>
  The inner loop of the insertion sort moves the new element down while it is less than
  its neighbour; \<open>placed\<close> is the part already sorted, last element first.
\<close>

fun insertionSort_sink :: "('a \<Rightarrow> 'a \<Rightarrow> bool) \<Rightarrow> 'a \<Rightarrow> 'a list \<Rightarrow> 'a list" where
  "insertionSort_sink lt x [] = [x]"
| "insertionSort_sink lt x (y # placed) =
     (if lt x y then y # insertionSort_sink lt x placed else x # y # placed)"

definition insertionSort :: "('a \<Rightarrow> 'a \<Rightarrow> bool) \<Rightarrow> 'a list \<Rightarrow> 'a list" where
  "insertionSort lt data = rev (foldl (\<lambda>placed x. insertionSort_sink lt x placed) [] data)"

text \<open>
  A small stand-in for the external packages, on which the theorems below are run: one
  byte per document in a stream (\<^verbatim>\<open>-\<close> a null document, \<^verbatim>\<open>!\<close> a syntax error),
  four kinds of manifest, an empty document that leaves the map nil and the typed view
  zero, a file system that never fails. What the runtime picks in a call of an encoder
  is the order in which it hands out the keys of the mapping; the encoder of a mapping
  prints the keys in the order in which it would write them, and the namespace.
\<close>

definition toy_object :: "bytes \<Rightarrow> k8sObject" where
  "toy_object doc =
    (if doc = [] then
       \<lparr>Kind = [], APIVersion = [],
        Metadata = \<lparr>Name = [], Namespace = [], Labels = Mapping.empty, Annotations = Mapping.empty\<rparr>\<rparr>
     else if hasPrefix doc ''N'' then
       \<lparr>Kind = ''Namespace'', APIVersion = ''v1'',
        Metadata = \<lparr>Name = ''demo'', Namespace = [], Labels = Mapping.empty, Annotations = Mapping.empty\<rparr>\<rparr>
     else if hasPrefix doc ''D'' then
       \<lparr>Kind = ''Deployment'', APIVersion = ''apps/v1'',
        Metadata = \<lparr>Name = ''web'', Namespace = [], Labels = Mapping.empty, Annotations = Mapping.empty\<rparr>\<rparr>
     else if hasPrefix doc ''S'' then
       \<lparr>Kind = ''Secret'', APIVersion = ''v1'',
        Metadata = \<lparr>Name = ''keys'', Namespace = ''vault'', Labels = Mapping.empty,
                    Annotations = Mapping.empty\<rparr>\<rparr>
     else
       \<lparr>Kind = ''ConfigMap'', APIVersion = ''v1'',
        Metadata = \<lparr>Name = ''cfg'', Namespace = ''ns-'' @ take 1 doc, Labels = Mapping.empty,
                    Annotations = Mapping.empty\<rparr>\<rparr>)"

definition toy_map :: "bytes \<Rightarrow> (string \<rightharpoonup> goval)" where
  "toy_map doc =
    (let obj = toy_object doc in
     [''kind'' \<mapsto> GString (Kind obj), ''apiVersion'' \<mapsto> GString (APIVersion obj),
      ''metadata'' \<mapsto>
        GMap ([(GString ''name'', GString (Name (Metadata obj)))] @
              (if Namespace (Metadata obj) = [] then []
               else [(GString ''namespace'', GString (Namespace (Metadata obj)))]))] ++
     (if hasPrefix doc ''S'' then
        [''2'' \<mapsto> GString ''x'', ''10'' \<mapsto> GString ''y'', ''1a'' \<mapsto> GString ''z'']
      else Map.empty))"

definition toy_externals :: "string list externals" where
  "toy_externals =
    \<lparr>goyaml_Decode = map (\<lambda>c. if c = CHR ''!'' then Inl (YAMLError ''syntax'')
                                else if c = CHR ''-'' then Inr GNil else Inr (GString [c])),
     goyaml_Marshal = (\<lambda>order v. case v of GString s \<Rightarrow> Inr s | _ \<Rightarrow> Inl (YAMLError ''value'')),
     yaml_Unmarshal_map = (\<lambda>doc. if doc = [] then Inr None else Inr (Some (toy_map doc))),
     yaml_Unmarshal_k8sObject = (\<lambda>doc. Inr (toy_object doc)),
     yaml_Marshal = (\<lambda>order objectMap. case objectMap of
          None \<Rightarrow> Inr ''{}''
        | Some m \<Rightarrow>
            Inr (concat (map (\<lambda>key. key @ '' '')
                   (insertionSort keyList_Less (filter (\<lambda>key. m key \<noteq> None) order))) @
                 (case metaField m ''namespace'' of
                    Some (GString n) \<Rightarrow> ''namespace: '' @ n
                  | _ \<Rightarrow> ''no namespace''))),
     IsClusterScoped = (\<lambda>kind apiVersion. kind = ''Namespace''),
     MkdirAll_fails = (\<lambda>fs path. False),
     WriteFile_fails = (\<lambda>fs path. False)\<rparr>"

text \<open>Two orders in which the runtime can hand out the keys of a mapping.\<close>

definition order1 :: "string list" where
  "order1 = [''2'', ''10'', ''1a'', ''apiVersion'', ''kind'', ''metadata'']"

definition order2 :: "string list" where
  "order2 = [''10'', ''1a'', ''2'', ''apiVersion'', ''kind'', ''metadata'']"

definition rnd1 :: "nat \<Rightarrow> string list" where
  "rnd1 i = order1"

definition rnd2 :: "nat \<Rightarrow> string list" where
  "rnd2 i = order2"

definition demo_config :: config where
  "demo_config = \<lparr>cfg_Filename = ''bundle.yaml'', cfg_Name = ''demo'', cfg_Namespace = ''prod''\<rparr>"


definition bundle_fs :: fsys where
  "bundle_fs = \<lparr>files = [''bundle.yaml'' \<mapsto> ''N-CDc''], dirs = {}\<rparr>"

definition secret_fs :: fsys where
  "secret_fs = \<lparr>files = [''bundle.yaml'' \<mapsto> ''-S''], dirs = {}\<rparr>"

definition bundle_done :: fsys where
  "bundle_done =
    \<lparr>files = [''bundle.yaml'' \<mapsto> ''N-CDc'',
              ''working/demo/Namespace_demo.yaml'' \<mapsto> ''apiVersion kind metadata no namespace'',
              ''working/demo/ConfigMap_cfg.yaml'' \<mapsto> ''apiVersion kind metadata namespace: ns-c'',
              ''working/demo/Deployment_web.yaml'' \<mapsto> ''apiVersion kind metadata namespace: prod''],
     dirs = {''working'', ''working/demo''}\<rparr>"

definition secret_done1 :: fsys where
  "secret_done1 =
    \<lparr>files = [''bundle.yaml'' \<mapsto> ''-S'',
              ''working/demo/Secret_keys.yaml'' \<mapsto>
                ''2 10 1a apiVersion kind metadata namespace: vault''],
     dirs = {''working'', ''working/demo''}\<rparr>"

definition secret_done2 :: fsys where
  "secret_done2 =
    \<lparr>files = [''bundle.yaml'' \<mapsto> ''-S'',
              ''working/demo/Secret_keys.yaml'' \<mapsto>
                ''10 1a 2 apiVersion kind metadata namespace: vault''],
     dirs = {''working'', ''working/demo''}\<rparr>"

text \<open>
  A Deployment whose metadata has a field outside the typed view, as the two decodings
  of the YAML packages give it.
\<close>

definition finalizers_objectMap :: "string \<rightharpoonup> goval" where
  "finalizers_objectMap =
    [''kind'' \<mapsto> GString ''Deployment'',
     ''metadata'' \<mapsto> GMap [(GString ''name'', GString ''web''),
                            (GString ''finalizers'', GSlice [GString ''keep''])]]"

definition finalizers_object :: k8sObject where
  "finalizers_object =
    \<lparr>Kind = ''Deployment'', APIVersion = [],
     Metadata = \<lparr>Name = ''web'', Namespace = [], Labels = Mapping.empty, Annotations = Mapping.empty\<rparr>\<rparr>"

section \<open>Lemmas about the Line Sanitizer\<close>

lemma hasPrefix_iff: "hasPrefix s p \<longleftrightarrow> prefix p s"
proof
  assume "hasPrefix s p"
  then have "s = p @ drop (length p) s"
    by (metis append_take_drop_id hasPrefix_def)
  then show "prefix p s" by (metis prefixI)
next
  assume "prefix p s"
  then obtain zs where "s = p @ zs" by (auto simp: prefix_def)
  then show "hasPrefix s p" by (simp add: hasPrefix_def)
qed

lemma contains_iff: "contains s sub \<longleftrightarrow> sublist sub s"
  by (induction s) (auto simp: hasPrefix_iff sublist_Cons_right)

lemma linesFrom_no_LF:
  "LF \<notin> set xs \<Longrightarrow> linesFrom cur xs = (if cur @ xs = [] then [] else [cur @ xs])"
  by (induction xs arbitrary: cur) auto

lemma linesFrom_LF:
  "LF \<notin> set xs \<Longrightarrow> linesFrom cur (xs @ LF # rest) = (cur @ xs) # linesFrom [] rest"
  by (induction xs arbitrary: cur) auto

lemma takeWhile_no_LF: "LF \<notin> set (takeWhile (\<lambda>c. c \<noteq> LF) data)"
  by (induction data) auto

lemma rawLines_unfold:
  "data \<noteq> [] \<Longrightarrow> rawLines data =
     (case dropWhile (\<lambda>c. c \<noteq> LF) data of
        [] \<Rightarrow> [data]
      | _ # rest \<Rightarrow> takeWhile (\<lambda>c. c \<noteq> LF) data # rawLines rest)"
proof -
  assume ne: "data \<noteq> []"
  let ?raw = "takeWhile (\<lambda>c. c \<noteq> LF) data"
  let ?rest = "dropWhile (\<lambda>c. c \<noteq> LF) data"
  have d: "data = ?raw @ ?rest" by simp
  show ?thesis
  proof (cases ?rest)
    case Nil
    then have "LF \<notin> set data" by (auto simp: dropWhile_eq_Nil_conv)
    then have "rawLines data = [data]" using ne by (simp add: rawLines_def linesFrom_no_LF)
    then show ?thesis by (simp only: Nil list.case)
  next
    case (Cons c rest)
    then have "c = LF" using hd_dropWhile[of "\<lambda>c. c \<noteq> LF" data] by auto
    then have "data = ?raw @ LF # rest" using d Cons by simp
    then have "rawLines data = ?raw # rawLines rest"
      using linesFrom_LF[OF takeWhile_no_LF, of "[]" data rest] by (simp add: rawLines_def)
    then show ?thesis by (simp only: Cons list.case)
  qed
qed

lemma rawLines_Nil: "rawLines [] = []"
  by (simp add: rawLines_def)

lemma rawLines_step:
  assumes "data \<noteq> []"
  shows "rawLines data =
    takeWhile (\<lambda>c. c \<noteq> LF) data # rawLines (drop 1 (dropWhile (\<lambda>c. c \<noteq> LF) data))"
proof (cases "dropWhile (\<lambda>c. c \<noteq> LF) data")
  case Nil
  then have "takeWhile (\<lambda>c. c \<noteq> LF) data = data"
    by (simp add: dropWhile_eq_Nil_conv takeWhile_eq_all_conv)
  moreover have "rawLines data = [data]"
    using rawLines_unfold[OF assms] by (simp only: Nil list.case)
  ultimately show ?thesis by (simp only: Nil drop_Nil rawLines_Nil)
next
  case (Cons c rest)
  have "rawLines data = takeWhile (\<lambda>c. c \<noteq> LF) data # rawLines rest"
    using rawLines_unfold[OF assms] by (simp only: Cons list.case)
  then show ?thesis by (simp only: Cons drop_Suc_Cons drop_0 One_nat_def)
qed

lemma clean_loop_Token:
  "scan input = Token line rest \<Longrightarrow>
   clean_loop input out =
     (if skipLine line then clean_loop rest out else clean_loop rest (out @ line @ [LF]))"
  by (subst clean_loop.simps) simp

lemma clean_loop_EOF: "scan input = ScanEOF \<Longrightarrow> clean_loop input out = Inr out"
  by (subst clean_loop.simps) simp

lemma clean_loop_Err: "scan input = ScanErr e \<Longrightarrow> clean_loop input out = Inl e"
  by (subst clean_loop.simps) simp

lemma scan_Nil: "scan [] = ScanEOF"
  by (simp add: scan_def)

lemma scan_short:
  "data \<noteq> [] \<Longrightarrow> length (takeWhile (\<lambda>c. c \<noteq> LF) data) < maxScanTokenSize \<Longrightarrow>
   scan data = Token (dropCR (takeWhile (\<lambda>c. c \<noteq> LF) data)) (drop 1 (dropWhile (\<lambda>c. c \<noteq> LF) data))"
  by (simp add: scan_def Let_def)

lemma scan_long:
  "data \<noteq> [] \<Longrightarrow> maxScanTokenSize \<le> length (takeWhile (\<lambda>c. c \<noteq> LF) data) \<Longrightarrow>
   scan data = ScanErr ErrTooLong"
  by (simp add: scan_def Let_def)

lemma clean_loop_lines:
  "\<forall>l\<in>set (rawLines input). length l < maxScanTokenSize \<Longrightarrow>
   clean_loop input out =
     Inr (out @ render (filter (\<lambda>l. \<not> skipLine l) (map dropCR (rawLines input))))"
proof (induction input out rule: clean_loop.induct)
  case (1 input out)
  show ?case
  proof (cases "input = []")
    case True
    then show ?thesis by (simp add: clean_loop_EOF scan_Nil rawLines_Nil render_def)
  next
    case False
    let ?raw = "takeWhile (\<lambda>c. c \<noteq> LF) input"
    let ?rest = "drop 1 (dropWhile (\<lambda>c. c \<noteq> LF) input)"
    have rl: "rawLines input = ?raw # rawLines ?rest"
      by (rule rawLines_step[OF False])
    from "1.prems" have short: "length ?raw < maxScanTokenSize"
      and rest: "\<forall>l\<in>set (rawLines ?rest). length l < maxScanTokenSize"
      unfolding rl by simp_all
    have sc: "scan input = Token (dropCR ?raw) ?rest"
      by (rule scan_short[OF False short])
    show ?thesis
    proof (cases "skipLine (dropCR ?raw)")
      case True
      have "clean_loop input out = clean_loop ?rest out"
        using clean_loop_Token[OF sc] True by simp
      also have "\<dots> = Inr (out @ render (filter (\<lambda>l. \<not> skipLine l) (map dropCR (rawLines ?rest))))"
        by (rule "1.IH"(1)[OF sc True rest])
      finally show ?thesis unfolding rl using True by simp
    next
      case False
      have "clean_loop input out = clean_loop ?rest (out @ dropCR ?raw @ [LF])"
        using clean_loop_Token[OF sc] False by simp
      also have "\<dots> = Inr ((out @ dropCR ?raw @ [LF]) @ render (filter (\<lambda>l. \<not> skipLine l) (map dropCR (rawLines ?rest))))"
        by (rule "1.IH"(2)[OF sc False rest])
      finally show ?thesis unfolding rl using False by (simp add: render_def)
    qed
  qed
qed

lemma clean_loop_too_long:
  "\<exists>l\<in>set (rawLines input). maxScanTokenSize \<le> length l \<Longrightarrow>
   clean_loop input out = Inl ErrTooLong"
proof (induction input out rule: clean_loop.induct)
  case (1 input out)
  show ?case
  proof (cases "input = []")
    case True
    with "1.prems" show ?thesis by (simp add: rawLines_Nil)
  next
    case False
    let ?raw = "takeWhile (\<lambda>c. c \<noteq> LF) input"
    let ?rest = "drop 1 (dropWhile (\<lambda>c. c \<noteq> LF) input)"
    have rl: "rawLines input = ?raw # rawLines ?rest"
      by (rule rawLines_step[OF False])
    show ?thesis
    proof (cases "maxScanTokenSize \<le> length ?raw")
      case True
      then show ?thesis using clean_loop_Err[OF scan_long[OF False True]] by simp
    next
      case short: False
      then have short': "length ?raw < maxScanTokenSize" by simp
      from "1.prems" short have rest: "\<exists>l\<in>set (rawLines ?rest). maxScanTokenSize \<le> length l"
        unfolding rl by auto
      have sc: "scan input = Token (dropCR ?raw) ?rest"
        by (rule scan_short[OF False short'])
      show ?thesis
      proof (cases "skipLine (dropCR ?raw)")
        case True
        then show ?thesis
          using "1.IH"(1)[OF sc True rest] clean_loop_Token[OF sc] by simp
      next
        case False
        then show ?thesis
          using "1.IH"(2)[OF sc False rest] clean_loop_Token[OF sc] by simp
      qed
    qed
  qed
qed

lemma hasPrefix_hash: "hasPrefix s ''#'' \<longleftrightarrow> (\<exists>u. s = CHR ''#'' # u)"
  by (cases s) (auto simp: hasPrefix_def)

lemma whiteSpace_no_hash: "w \<in> set whiteSpace \<Longrightarrow> hd w \<noteq> CHR ''#''"
  by (auto simp: whiteSpace_def)

lemma take_suffix_hash:
  assumes w: "w \<in> set whiteSpace" and suf: "hasSuffix s w"
  shows "hasPrefix (take (length s - length w) s) ''#'' \<longleftrightarrow> hasPrefix s ''#''"
proof
  assume "hasPrefix (take (length s - length w) s) ''#''"
  then obtain u where u: "take (length s - length w) s = CHR ''#'' # u"
    by (auto simp: hasPrefix_hash)
  then have "0 < length s - length w" by (cases "length s - length w") auto
  with u show "hasPrefix s ''#''"
    by (cases s) (auto simp: hasPrefix_hash take_Cons')
next
  assume "hasPrefix s ''#''"
  then obtain u where s: "s = CHR ''#'' # u" by (auto simp: hasPrefix_hash)
  have "length w \<noteq> length s"
  proof
    assume "length w = length s"
    with suf have "w = s" by (simp add: hasSuffix_def)
    with s whiteSpace_no_hash[OF w] show False by simp
  qed
  with suf have "0 < length s - length w" by (simp add: hasSuffix_def)
  with s show "hasPrefix (take (length s - length w) s) ''#''"
    by (auto simp: hasPrefix_hash take_Cons')
qed

lemma trimRight_hash: "hasPrefix (trimRight s) ''#'' \<longleftrightarrow> hasPrefix s ''#''"
proof (induction s rule: trimRight.induct)
  case (1 s)
  show ?case
  proof (cases "trailingSpace s")
    case None
    then show ?thesis by (subst trimRight.simps) simp
  next
    case (Some w)
    have "trimRight s = trimRight (take (length s - length w) s)"
      by (subst trimRight.simps) (simp add: Some)
    then show ?thesis
      using "1.IH"[OF Some] take_suffix_hash[of w s] trailingSpace_Some[OF Some] by simp
  qed
qed

lemma skipLine_iff: "skipLine line \<longleftrightarrow> spec_removed line"
proof -
  have "hasPrefix (trimSpace line) ''#'' \<longleftrightarrow> prefix ''#'' (trimLeft line)"
    unfolding trimSpace_def trimRight_hash by (rule hasPrefix_iff)
  then show ?thesis
    by (simp add: skipLine_def spec_removed_def contains_iff)
qed

lemma trimLeft_no_space: "leadingSpace s = None \<Longrightarrow> trimLeft s = s"
  by (subst trimLeft.simps) simp

lemma trimLeft_space: "leadingSpace s = Some w \<Longrightarrow> trimLeft s = trimLeft (drop (length w) s)"
  by (subst trimLeft.simps) simp

lemma skipLine_trimLeft:
  "skipLine line =
    (contains line ''---'' \<or> hasPrefix (trimLeft line) ''#'' \<or>
     contains line ''helm.sh/chart'' \<or> contains line ''app.kubernetes.io/managed-by'')"
  by (simp add: skipLine_def trimSpace_def trimRight_hash)

lemma example_line_1: "\<not> skipLine ''apiVersion: v1''"
  by (simp add: skipLine_trimLeft trimLeft_no_space leadingSpace_def whiteSpace_def hasPrefix_def)

lemma example_line_2: "skipLine ''# comment''"
  by (simp add: skipLine_trimLeft trimLeft_no_space leadingSpace_def whiteSpace_def hasPrefix_def)

lemma example_line_3: "skipLine ''---''"
  by (simp add: skipLine_trimLeft hasPrefix_def)

lemma example_line_4: "skipLine ''  app.kubernetes.io/managed-by: Helm''"
  by (simp add: skipLine_trimLeft hasPrefix_def)

lemma example_line_5: "\<not> skipLine ''kind: Pod''"
  by (simp add: skipLine_trimLeft trimLeft_no_space leadingSpace_def whiteSpace_def hasPrefix_def)

lemma takeWhile_line: "LF \<notin> set l \<Longrightarrow> takeWhile (\<lambda>c. c \<noteq> LF) (l @ LF # rest) = l"
  by (induction l) auto

lemma dropWhile_line: "LF \<notin> set l \<Longrightarrow> dropWhile (\<lambda>c. c \<noteq> LF) (l @ LF # rest) = LF # rest"
  by (induction l) auto

lemma takeWhile_last: "LF \<notin> set l \<Longrightarrow> takeWhile (\<lambda>c. c \<noteq> LF) l = l"
  by (induction l) auto

lemma dropWhile_last: "LF \<notin> set l \<Longrightarrow> dropWhile (\<lambda>c. c \<noteq> LF) l = []"
  by (induction l) auto

lemma clean_loop_eval:
  "clean_loop [] out = Inr out"
  "LF \<notin> set l \<Longrightarrow> length l < maxScanTokenSize \<Longrightarrow>
     clean_loop (l @ LF # rest) out =
       (if skipLine (dropCR l) then clean_loop rest out else clean_loop rest (out @ dropCR l @ [LF]))"
  "LF \<notin> set l \<Longrightarrow> l \<noteq> [] \<Longrightarrow> length l < maxScanTokenSize \<Longrightarrow>
     clean_loop l out =
       (if skipLine (dropCR l) then Inr out else Inr (out @ dropCR l @ [LF]))"
proof -
  show "clean_loop [] out = Inr out" by (simp add: clean_loop_EOF scan_Nil)
next
  assume a: "LF \<notin> set l" "length l < maxScanTokenSize"
  have t: "takeWhile (\<lambda>c. c \<noteq> LF) (l @ LF # rest) = l"
    using a(1) by (rule takeWhile_line)
  have d: "dropWhile (\<lambda>c. c \<noteq> LF) (l @ LF # rest) = LF # rest"
    using a(1) by (rule dropWhile_line)
  have "scan (l @ LF # rest) = Token (dropCR l) rest"
    using scan_short[of "l @ LF # rest"] a unfolding t d by simp
  then show "clean_loop (l @ LF # rest) out =
       (if skipLine (dropCR l) then clean_loop rest out else clean_loop rest (out @ dropCR l @ [LF]))"
    by (rule clean_loop_Token)
next
  assume a: "LF \<notin> set l" "l \<noteq> []" "length l < maxScanTokenSize"
  have t: "takeWhile (\<lambda>c. c \<noteq> LF) l = l"
    using a(1) by (rule takeWhile_last)
  have d: "dropWhile (\<lambda>c. c \<noteq> LF) l = []"
    using a(1) by (rule dropWhile_last)
  have "scan l = Token (dropCR l) []"
    using scan_short[of l] a unfolding t d by simp
  then show "clean_loop l out =
       (if skipLine (dropCR l) then Inr out else Inr (out @ dropCR l @ [LF]))"
    using clean_loop_Token[of l "dropCR l" "[]" out] by (simp add: clean_loop_EOF scan_Nil)
qed

lemma example_terminated:
  "clean (''apiVersion: v1'' @ [LF] @ ''# comment'' @ [LF] @ ''---'' @ [LF] @
          ''  app.kubernetes.io/managed-by: Helm'' @ [LF] @ ''kind: Pod'' @ [LF]) =
   Inr (''apiVersion: v1'' @ [LF] @ ''kind: Pod'' @ [LF])"
proof -
  have 1: "clean_loop (''kind: Pod'' @ LF # []) out = Inr (out @ ''kind: Pod'' @ [LF])" for out
    by (subst clean_loop_eval(2)) (simp_all add: maxScanTokenSize_def dropCR_def example_line_5 clean_loop_eval(1))
  have 2: "clean_loop (''  app.kubernetes.io/managed-by: Helm'' @ LF # rest) out = clean_loop rest out" for out rest
    by (subst clean_loop_eval(2)) (simp_all add: maxScanTokenSize_def dropCR_def example_line_4)
  have 3: "clean_loop (''---'' @ LF # rest) out = clean_loop rest out" for out rest
    by (subst clean_loop_eval(2)) (simp_all add: maxScanTokenSize_def dropCR_def example_line_3)
  have 4: "clean_loop (''# comment'' @ LF # rest) out = clean_loop rest out" for out rest
    by (subst clean_loop_eval(2)) (simp_all add: maxScanTokenSize_def dropCR_def example_line_2)
  have 5: "clean_loop (''apiVersion: v1'' @ LF # rest) out = clean_loop rest (out @ ''apiVersion: v1'' @ [LF])" for out rest
    by (subst clean_loop_eval(2)) (simp_all add: maxScanTokenSize_def dropCR_def example_line_1)
  show ?thesis
    unfolding clean_def using 1 2 3 4 5 by simp
qed

lemma linesFrom_elems_no_LF:
  "LF \<notin> set cur \<Longrightarrow> l \<in> set (linesFrom cur xs) \<Longrightarrow> LF \<notin> set l"
proof (induction xs arbitrary: cur)
  case Nil
  then show ?case by (auto split: if_splits)
next
  case (Cons c cs)
  show ?case
  proof (cases "c = LF")
    case True
    with Cons.prems have "l = cur \<or> l \<in> set (linesFrom [] cs)" by simp
    then show ?thesis using Cons.prems(1) Cons.IH[of "[]"] by auto
  next
    case False
    with Cons.prems have "l \<in> set (linesFrom (cur @ [c]) cs)" by simp
    then show ?thesis using Cons.IH[of "cur @ [c]"] Cons.prems(1) False by auto
  qed
qed

lemma rawLines_no_LF: "l \<in> set (rawLines input) \<Longrightarrow> LF \<notin> set l"
  unfolding rawLines_def by (rule linesFrom_elems_no_LF[of "[]"]) simp_all

lemma dropCR_no_LF: "LF \<notin> set l \<Longrightarrow> LF \<notin> set (dropCR l)"
  by (auto simp: dropCR_def dest: in_set_butlastD)

lemma length_dropCR: "length (dropCR l) \<le> length l"
  by (simp add: dropCR_def)

lemma render_Cons: "render (l # ls) = l @ LF # render ls"
  by (simp add: render_def)

lemma rawLines_render:
  "\<forall>l\<in>set ls. LF \<notin> set l \<Longrightarrow> rawLines (render ls) = ls"
proof (induction ls)
  case Nil
  then show ?case by (simp add: render_def rawLines_def)
next
  case (Cons l ls)
  then have "LF \<notin> set l" and IH: "rawLines (render ls) = ls" by simp_all
  then show ?case
    using linesFrom_LF[of l "[]" "render ls"] by (simp add: render_Cons rawLines_def)
qed

lemma render_sublist: "l \<in> set ls \<Longrightarrow> sublist (l @ [LF]) (render ls)"
proof -
  assume "l \<in> set ls"
  then obtain xs ys where "ls = xs @ l # ys" by (auto dest: split_list)
  then have "render ls = render xs @ (l @ [LF]) @ render ys"
    by (simp add: render_def)
  then show ?thesis unfolding sublist_def by blast
qed

lemma dropCR_changes: "dropCR l \<noteq> l \<Longrightarrow> \<exists>u. l = u @ [CR]"
  by (auto simp: dropCR_def split: if_splits intro: exI[of _ "butlast l"])
    (metis append_butlast_last_id)

lemma no_CRLF_dropCR:
  assumes "\<not> sublist [CR, LF] (render ls)" and "l \<in> set ls"
  shows "dropCR l = l"
proof (rule ccontr)
  assume "dropCR l \<noteq> l"
  then obtain u where "l = u @ [CR]" using dropCR_changes by blast
  with render_sublist[OF assms(2)] have "sublist (u @ [CR, LF]) (render ls)" by simp
  then have "sublist [CR, LF] (render ls)"
    by (meson sublist_append_leftI sublist_order.order_trans)
  with assms(1) show False by simp
qed

lemma clean_Inr_short:
  assumes "clean input = Inr out"
  shows "\<forall>l\<in>set (rawLines input). length l < maxScanTokenSize"
proof (rule ccontr)
  assume "\<not> (\<forall>l\<in>set (rawLines input). length l < maxScanTokenSize)"
  then have "\<exists>l\<in>set (rawLines input). maxScanTokenSize \<le> length l"
    by (auto simp: not_less)
  then have "clean input = Inl ErrTooLong"
    unfolding clean_def by (rule clean_loop_too_long)
  with assms show False by simp
qed

lemma cr_lines_not_skipped: "\<not> skipLine [CR]" "\<not> skipLine []"
  by (simp_all add: skipLine_trimLeft trimLeft_space[of "[CR]" "[CR]"] trimLeft_no_space
      leadingSpace_def whiteSpace_def hasPrefix_def)

lemma clean_CR_CR_LF: "clean [CR, CR, LF] = Inr [CR, LF]"
  using clean_loop_eval(2)[of "[CR, CR]" "[]" "[]"]
  by (simp add: clean_def clean_loop_eval(1) maxScanTokenSize_def dropCR_def cr_lines_not_skipped)

lemma clean_CR_LF: "clean [CR, LF] = Inr [LF]"
  using clean_loop_eval(2)[of "[CR]" "[]" "[]"]
  by (simp add: clean_def clean_loop_eval(1) maxScanTokenSize_def dropCR_def cr_lines_not_skipped)

lemma rawLines_single: "LF \<notin> set l \<Longrightarrow> l \<noteq> [] \<Longrightarrow> rawLines l = [l]"
  by (simp add: rawLines_def linesFrom_no_LF)

lemma leadingSpace_a: "leadingSpace (CHR ''a'' # u) = None"
  by (simp add: leadingSpace_def whiteSpace_def hasPrefix_def)

lemma replicate_a_not_removed:
  assumes "0 < n"
  shows "\<not> spec_removed (replicate n (CHR ''a''))"
proof -
  have "\<not> sublist sub (replicate n (CHR ''a''))" if "c \<in> set sub" "c \<noteq> CHR ''a''" for sub c
  proof
    assume "sublist sub (replicate n (CHR ''a''))"
    then have "set sub \<subseteq> set (replicate n (CHR ''a''))" by (rule set_mono_sublist)
    with that show False by auto
  qed
  from this[of "CHR ''-''"] this[of "CHR ''h''"] this[of "CHR ''p''"]
  have 1: "\<not> sublist ''---'' (replicate n (CHR ''a''))"
    and 2: "\<not> sublist ''helm.sh/chart'' (replicate n (CHR ''a''))"
    and 3: "\<not> sublist ''app.kubernetes.io/managed-by'' (replicate n (CHR ''a''))"
    by simp_all
  from assms obtain m where "n = Suc m" by (cases n) auto
  then have 4: "\<not> prefix ''#'' (trimLeft (replicate n (CHR ''a'')))"
    by (simp add: trimLeft_no_space leadingSpace_a)
  show ?thesis using 1 2 3 4 by (simp add: spec_removed_def)
qed

lemma replicate_a_too_long:
  assumes "maxScanTokenSize \<le> n"
  shows "clean (replicate n (CHR ''a'')) = Inl ErrTooLong"
proof -
  from assms have "0 < n" by (simp add: maxScanTokenSize_def)
  then have "rawLines (replicate n (CHR ''a'')) = [replicate n (CHR ''a'')]"
    by (intro rawLines_single) auto
  with assms have "\<exists>l\<in>set (rawLines (replicate n (CHR ''a''))). maxScanTokenSize \<le> length l"
    by simp
  then show ?thesis unfolding clean_def by (rule clean_loop_too_long)
qed

lemma long_line_not_removed: "\<not> spec_removed (replicate 65536 (CHR ''a''))"
  by (rule replicate_a_not_removed) simp

lemma long_line_fails: "clean (replicate 65536 (CHR ''a'')) = Inl ErrTooLong"
  by (rule replicate_a_too_long) (simp add: maxScanTokenSize_def)

lemma witness_lines:
  "rawLines (''a'' @ [CR, LF] @ ''# b'' @ [LF] @ ''c'') = [''a'' @ [CR], ''# b'', ''c'']"
  by (simp add: rawLines_def)

lemma witness_removed: "\<not> spec_removed ''a''" "spec_removed ''# b''" "\<not> spec_removed ''c''"
  by (simp_all add: skipLine_iff[symmetric] skipLine_trimLeft trimLeft_no_space leadingSpace_def
      whiteSpace_def hasPrefix_def)

lemma witness_clean: "clean (''a'' @ [CR, LF] @ ''# b'' @ [LF] @ ''c'') = Inr (''a'' @ [LF] @ ''c'' @ [LF])"
  using clean_loop_lines[of "''a'' @ [CR, LF] @ ''# b'' @ [LF] @ ''c''" "[]"]
  unfolding witness_lines
  by (simp add: clean_def maxScanTokenSize_def dropCR_def skipLine_iff witness_removed render_def)

section \<open>Lemmas about the Document Splitter and the Namespace Normalizer\<close>

lemma splitYAML_loop_valid:
  assumes "\<forall>i<length (filter (\<lambda>v. v \<noteq> GNil) values).
             \<exists>b. marshal (rnd i) (filter (\<lambda>v. v \<noteq> GNil) values ! i) = Inr b"
  shows "\<exists>out. splitYAML_loop marshal rnd (map Inr values) res = Inr (res @ out) \<and>
           length out = length (filter (\<lambda>v. v \<noteq> GNil) values) \<and>
           (\<forall>i<length out. marshal (rnd i) (filter (\<lambda>v. v \<noteq> GNil) values ! i) = Inr (out ! i))"
  using assms
proof (induction "values" arbitrary: res rnd)
  case Nil
  then show ?case by simp
next
  case (Cons v vs)
  let ?nn = "filter (\<lambda>v. v \<noteq> GNil) vs"
  show ?case
  proof (cases "v = GNil")
    case True
    with Cons.prems have "\<forall>i<length ?nn. \<exists>b. marshal (rnd i) (?nn ! i) = Inr b" by simp
    from Cons.IH[OF this, of res] True show ?thesis by simp
  next
    case False
    then have f: "filter (\<lambda>v. v \<noteq> GNil) (v # vs) = v # ?nn" by simp
    from Cons.prems have p: "\<forall>i<Suc (length ?nn). \<exists>b. marshal (rnd i) ((v # ?nn) ! i) = Inr b"
      unfolding f by simp
    from p have "\<exists>b. marshal (rnd 0) ((v # ?nn) ! 0) = Inr b" by blast
    then obtain b where b: "marshal (rnd 0) v = Inr b" by auto
    have "\<forall>i<length ?nn. \<exists>b. marshal (rnd (Suc i)) (?nn ! i) = Inr b"
    proof (intro allI impI)
      fix i assume "i < length ?nn"
      then have "Suc i < Suc (length ?nn)" by simp
      with p have "\<exists>b. marshal (rnd (Suc i)) ((v # ?nn) ! Suc i) = Inr b" by blast
      then show "\<exists>b. marshal (rnd (Suc i)) (?nn ! i) = Inr b" by simp
    qed
    from Cons.IH[of "\<lambda>i. rnd (Suc i)" "res @ [b]", OF this] obtain out where
      out: "splitYAML_loop marshal (\<lambda>i. rnd (Suc i)) (map Inr vs) (res @ [b]) =
              Inr ((res @ [b]) @ out)"
        "length out = length ?nn"
        "\<forall>i<length out. marshal (rnd (Suc i)) (?nn ! i) = Inr (out ! i)" by blast
    have 1: "splitYAML_loop marshal rnd (map Inr (v # vs)) res = Inr (res @ (b # out))"
      using False b out(1) by simp
    have 2: "length (b # out) = length (filter (\<lambda>v. v \<noteq> GNil) (v # vs))"
      unfolding f using out(2) by simp
    have 3: "\<forall>i<length (b # out).
        marshal (rnd i) (filter (\<lambda>v. v \<noteq> GNil) (v # vs) ! i) = Inr ((b # out) ! i)"
      unfolding f
    proof (intro allI impI)
      fix i assume i: "i < length (b # out)"
      show "marshal (rnd i) ((v # ?nn) ! i) = Inr ((b # out) ! i)"
      proof (cases i)
        case 0
        with b show ?thesis by simp
      next
        case (Suc j)
        with i have "j < length out" by simp
        with out(3) have "marshal (rnd (Suc j)) (?nn ! j) = Inr (out ! j)" by blast
        with Suc show ?thesis by simp
      qed
    qed
    from 1 2 3 show ?thesis by blast
  qed
qed

lemma splitYAML_loop_error:
  "\<exists>e. splitYAML_loop marshal rnd (map Inr values @ Inl err # rest) res = Inl e"
proof (induction "values" arbitrary: res rnd)
  case Nil
  then show ?case by simp
next
  case (Cons v vs)
  then show ?case by (cases "marshal (rnd 0) v") auto
qed

lemma splitYAML_loop_first_error:
  assumes "\<forall>i<length (filter (\<lambda>v. v \<noteq> GNil) values).
             \<exists>b. marshal (rnd i) (filter (\<lambda>v. v \<noteq> GNil) values ! i) = Inr b"
  shows "splitYAML_loop marshal rnd (map Inr values @ Inl err # rest) res = Inl err"
  using assms
proof (induction "values" arbitrary: res rnd)
  case Nil
  then show ?case by simp
next
  case (Cons v vs)
  let ?nn = "filter (\<lambda>v. v \<noteq> GNil) vs"
  show ?case
  proof (cases "v = GNil")
    case True
    with Cons.prems have "\<forall>i<length ?nn. \<exists>b. marshal (rnd i) (?nn ! i) = Inr b" by simp
    from Cons.IH[OF this, of res] True show ?thesis by simp
  next
    case False
    then have f: "filter (\<lambda>v. v \<noteq> GNil) (v # vs) = v # ?nn" by simp
    from Cons.prems have p: "\<forall>i<Suc (length ?nn). \<exists>b. marshal (rnd i) ((v # ?nn) ! i) = Inr b"
      unfolding f by simp
    from p have "\<exists>b. marshal (rnd 0) ((v # ?nn) ! 0) = Inr b" by blast
    then obtain b where b: "marshal (rnd 0) v = Inr b" by auto
    have "\<forall>i<length ?nn. \<exists>b. marshal (rnd (Suc i)) (?nn ! i) = Inr b"
    proof (intro allI impI)
      fix i assume "i < length ?nn"
      then have "Suc i < Suc (length ?nn)" by simp
      with p have "\<exists>b. marshal (rnd (Suc i)) ((v # ?nn) ! Suc i) = Inr b" by blast
      then show "\<exists>b. marshal (rnd (Suc i)) (?nn ! i) = Inr b" by simp
    qed
    from Cons.IH[of "\<lambda>i. rnd (Suc i)" "res @ [b]", OF this] show ?thesis using False b by simp
  qed
qed

lemma normalize_after_setNamespace:
  assumes "yaml_Unmarshal_map ext cleanres = Inr objectMap"
    and "yaml_Unmarshal_k8sObject ext cleanres = Inr metadataObject"
    and "setNamespace (IsClusterScoped ext) ns objectMap metadataObject =
           Inr (objectMap', metadataObject')"
  shows "normalize ext r ns cleanres =
    (case yaml_Marshal ext r objectMap' of
       Inl err \<Rightarrow> Inl err
     | Inr updatedCleanres \<Rightarrow> Inr (updatedCleanres, metadataObject'))"
  using assms by (simp add: normalize_def prepare_def)

lemma setNamespace_unchanged:
  "isClusterScoped (Kind metadataObject) (APIVersion metadataObject) \<or>
   Namespace (Metadata metadataObject) \<noteq> [] \<Longrightarrow>
   setNamespace isClusterScoped ns objectMap metadataObject = Inr (objectMap, metadataObject)"
  by (auto simp: setNamespace_def)

section \<open>Lemmas about the File Emitter and the loop\<close>

lemma processDoc_docResult:
  "processDoc ext cfg r res fs =
    (case docResult ext cfg r res of
       Inl err \<Rightarrow> (Some err, fs)
     | Inr (data, metadataObject) \<Rightarrow> emit ext cfg metadataObject data fs)"
  by (simp add: processDoc_def docResult_def split: sum.splits)

lemma emit_None:
  "emit ext cfg metadataObject data fs = (None, fs') \<Longrightarrow>
   fs' = fs\<lparr>dirs := dirs fs \<union> set (dirChain (''working/'' @ cfg_Name cfg)),
           files := (files fs)(fileName cfg metadataObject \<mapsto> data)\<rparr>"
  by (auto simp: emit_def MkdirAll_def WriteFile_def split: if_splits)

lemma processDoc_None:
  assumes "processDoc ext cfg r res fs = (None, fs')"
  shows "\<exists>data metadataObject. docResult ext cfg r res = Inr (data, metadataObject) \<and>
     fs' = fs\<lparr>dirs := dirs fs \<union> set (dirChain (''working/'' @ cfg_Name cfg)),
             files := (files fs)(fileName cfg metadataObject \<mapsto> data)\<rparr>"
proof (cases "docResult ext cfg r res")
  case (Inl e)
  with assms show ?thesis by (simp add: processDoc_docResult)
next
  case (Inr dm)
  obtain data metadataObject where dm: "dm = (data, metadataObject)" by (cases dm)
  with Inr assms have "emit ext cfg metadataObject data fs = (None, fs')"
    by (simp add: processDoc_docResult)
  from emit_None[OF this] Inr dm show ?thesis by simp
qed

lemma processDocs_Cons_None:
  "processDocs ext cfg rnd (res # result) fs = (None, fs') \<Longrightarrow>
   \<exists>fs1. processDoc ext cfg (rnd 0) res fs = (None, fs1) \<and>
         processDocs ext cfg (\<lambda>i. rnd (Suc i)) result fs1 = (None, fs')"
  by (cases "processDoc ext cfg (rnd 0) res fs") (auto split: option.splits)






lemma map_upd_add: "f ++ ([k \<mapsto> d] ++ B) = f(k \<mapsto> d) ++ B"
  by (rule ext) (auto simp: map_add_def split: option.splits)

lemma map_add_twice: "f ++ M ++ M = f ++ M"
  by (rule ext) (auto simp: map_add_def split: option.splits)

text \<open>The loop depends on what the runtime picks only through the bytes of each document.\<close>

lemma processDocs_cong:
  "\<forall>i<length docs. docResult ext cfg (rnd' i) (docs ! i) = docResult ext cfg (rnd i) (docs ! i) \<Longrightarrow>
   processDocs ext cfg rnd' docs fs = processDocs ext cfg rnd docs fs"
proof (induction docs arbitrary: fs rnd rnd')
  case Nil
  then show ?case by simp
next
  case (Cons x xs)
  from Cons.prems have "docResult ext cfg (rnd' 0) ((x # xs) ! 0) =
      docResult ext cfg (rnd 0) ((x # xs) ! 0)" by blast
  then have 0: "processDoc ext cfg (rnd' 0) x fs = processDoc ext cfg (rnd 0) x fs"
    by (simp add: processDoc_docResult)
  have "\<forall>i<length xs. docResult ext cfg (rnd' (Suc i)) (xs ! i) =
      docResult ext cfg (rnd (Suc i)) (xs ! i)"
  proof (intro allI impI)
    fix i assume "i < length xs"
    then have "Suc i < length (x # xs)" by simp
    with Cons.prems have "docResult ext cfg (rnd' (Suc i)) ((x # xs) ! Suc i) =
      docResult ext cfg (rnd (Suc i)) ((x # xs) ! Suc i)" by blast
    then show "docResult ext cfg (rnd' (Suc i)) (xs ! i) =
      docResult ext cfg (rnd (Suc i)) (xs ! i)" by simp
  qed
  from Cons.IH[of "\<lambda>i. rnd' (Suc i)" "\<lambda>i. rnd (Suc i)", OF this]
  have "processDocs ext cfg (\<lambda>i. rnd' (Suc i)) xs fs1 =
      processDocs ext cfg (\<lambda>i. rnd (Suc i)) xs fs1" for fs1 .
  with 0 show ?case by (simp split: prod.splits option.splits)
qed

lemma processDocs_None_effect:
  "processDocs ext cfg rnd docs fs = (None, fs') \<Longrightarrow>
   fs' = fs\<lparr>files := files fs ++ batchFiles ext cfg rnd docs,
           dirs := (if docs = [] then dirs fs
                    else dirs fs \<union> set (dirChain (''working/'' @ cfg_Name cfg)))\<rparr>"
proof (induction docs arbitrary: fs rnd)
  case Nil
  then show ?case by simp
next
  case (Cons x xs)
  from processDocs_Cons_None[OF Cons.prems]
  obtain fs1 where a: "processDoc ext cfg (rnd 0) x fs = (None, fs1)"
    and b: "processDocs ext cfg (\<lambda>i. rnd (Suc i)) xs fs1 = (None, fs')" by auto
  from processDoc_None[OF a] obtain d m where
    r: "docResult ext cfg (rnd 0) x = Inr (d, m)"
    and fs1: "fs1 = fs\<lparr>dirs := dirs fs \<union> set (dirChain (''working/'' @ cfg_Name cfg)),
             files := (files fs)(fileName cfg m \<mapsto> d)\<rparr>" by blast
  show ?case
    unfolding Cons.IH[OF b] fs1 using r by (simp add: map_upd_add)
qed

lemma run_twice_both_complete:
  assumes "processDocs ext cfg rnd docs fs = (None, fs1)"
    and "processDocs ext cfg rnd docs fs1 = (None, fs2)"
  shows "fs2 = fs1"
  unfolding processDocs_None_effect[OF assms(2)]
  unfolding processDocs_None_effect[OF assms(1)]
  by (simp add: map_add_twice)

text \<open>
  When the failure of an I/O call does not depend on the state of the file system, the
  outcome of the loop and its effect on the state are those of fixed additions.
\<close>

lemma emit_fixed:
  assumes mk: "\<forall>fs fs' p. MkdirAll_fails ext fs p = MkdirAll_fails ext fs' p"
    and wr: "\<forall>fs fs' p. WriteFile_fails ext fs p = WriteFile_fails ext fs' p"
    and dir: "dir = ''working/'' @ cfg_Name cfg"
  shows "emit ext cfg m d fs =
    (if MkdirAll_fails ext fs0 dir then (Some (PathError dir), fs)
     else if WriteFile_fails ext fs0 (fileName cfg m)
       then (Some (PathError (fileName cfg m)), fs\<lparr>dirs := dirs fs \<union> set (dirChain dir)\<rparr>)
       else (None, fs\<lparr>dirs := dirs fs \<union> set (dirChain dir),
                       files := (files fs)(fileName cfg m \<mapsto> d)\<rparr>))"
proof -
  have a: "MkdirAll_fails ext fs dir = MkdirAll_fails ext fs0 dir" using mk by blast
  have b: "WriteFile_fails ext (fs\<lparr>dirs := dirs fs \<union> set (dirChain dir)\<rparr>) (fileName cfg m) =
      WriteFile_fails ext fs0 (fileName cfg m)" using wr by blast
  show ?thesis
    unfolding emit_def MkdirAll_def WriteFile_def dir[symmetric] a
    by (simp add: b)
qed

lemma processDocs_fixed_effect:
  assumes mk: "\<forall>fs fs' p. MkdirAll_fails ext fs p = MkdirAll_fails ext fs' p"
    and wr: "\<forall>fs fs' p. WriteFile_fails ext fs p = WriteFile_fails ext fs' p"
  shows "\<exists>r M D. \<forall>fs. processDocs ext cfg rnd docs fs =
           (r, fs\<lparr>files := files fs ++ M, dirs := dirs fs \<union> D\<rparr>)"
proof (induction docs arbitrary: rnd)
  case Nil
  have "\<forall>fs. processDocs ext cfg rnd [] fs =
      (None, fs\<lparr>files := files fs ++ Map.empty, dirs := dirs fs \<union> {}\<rparr>)" by simp
  then show ?case by blast
next
  case (Cons x xs)
  from Cons[of "\<lambda>i. rnd (Suc i)"]
  obtain r M D where IH: "\<And>fs. processDocs ext cfg (\<lambda>i. rnd (Suc i)) xs fs =
      (r, fs\<lparr>files := files fs ++ M, dirs := dirs fs \<union> D\<rparr>)" by blast
  define fs0 :: fsys where "fs0 = \<lparr>files = Map.empty, dirs = {}\<rparr>"
  define dir where "dir = ''working/'' @ cfg_Name cfg"
  define DC where "DC = set (dirChain dir)"
  note em = emit_fixed[OF mk wr dir_def, of _ _ _ fs0, folded DC_def]
  show ?case
  proof (cases "docResult ext cfg (rnd 0) x")
    case (Inl e)
    then have "\<forall>fs. processDocs ext cfg rnd (x # xs) fs =
        (Some e, fs\<lparr>files := files fs ++ Map.empty, dirs := dirs fs \<union> {}\<rparr>)"
      by (simp add: processDoc_docResult)
    then show ?thesis by blast
  next
    case (Inr dm)
    obtain d m where dm: "dm = (d, m)" by (cases dm)
    have pd: "processDoc ext cfg (rnd 0) x fs = emit ext cfg m d fs" for fs
      using Inr dm by (simp add: processDoc_docResult)
    show ?thesis
    proof (cases "MkdirAll_fails ext fs0 dir")
      case True
      then have "\<forall>fs. processDocs ext cfg rnd (x # xs) fs =
          (Some (PathError dir), fs\<lparr>files := files fs ++ Map.empty, dirs := dirs fs \<union> {}\<rparr>)"
        by (simp add: pd em)
      then show ?thesis by blast
    next
      case mkok: False
      show ?thesis
      proof (cases "WriteFile_fails ext fs0 (fileName cfg m)")
        case True
        then have "\<forall>fs. processDocs ext cfg rnd (x # xs) fs =
            (Some (PathError (fileName cfg m)),
             fs\<lparr>files := files fs ++ Map.empty, dirs := dirs fs \<union> DC\<rparr>)"
          using mkok by (simp add: pd em)
        then show ?thesis by blast
      next
        case False
        have "\<forall>fs. processDocs ext cfg rnd (x # xs) fs =
            (r, fs\<lparr>files := files fs ++ ([fileName cfg m \<mapsto> d] ++ M),
                   dirs := dirs fs \<union> (DC \<union> D)\<rparr>)"
          using mkok False by (simp add: pd em IH map_upd_add Un_assoc)
        then show ?thesis by blast
      qed
    qed
  qed
qed

lemma run_twice_fixed_failures:
  assumes mk: "\<forall>fs fs' p. MkdirAll_fails ext fs p = MkdirAll_fails ext fs' p"
    and wr: "\<forall>fs fs' p. WriteFile_fails ext fs p = WriteFile_fails ext fs' p"
  shows "processDocs ext cfg rnd docs (snd (processDocs ext cfg rnd docs fs)) =
         processDocs ext cfg rnd docs fs"
proof -
  from processDocs_fixed_effect[OF mk wr, of cfg rnd docs] obtain r M D where
    e: "\<And>fs. processDocs ext cfg rnd docs fs =
           (r, fs\<lparr>files := files fs ++ M, dirs := dirs fs \<union> D\<rparr>)" by blast
  show ?thesis
    by (simp add: e map_add_twice Un_assoc)
qed

lemma SplitYAML_data_same_encoding:
  assumes "splitYAML ext rnd2 data = splitYAML ext rnd1 data"
    and "\<forall>result. splitYAML ext rnd1 data = Inr result \<longrightarrow>
           (\<forall>i<length result.
              docResult ext cfg (rnd2 (length result + i)) (result ! i) =
              docResult ext cfg (rnd1 (length result + i)) (result ! i))"
  shows "SplitYAML_data ext cfg rnd2 data fs = SplitYAML_data ext cfg rnd1 data fs"
proof (cases "splitYAML ext rnd1 data")
  case (Inl e)
  with assms(1) show ?thesis by (simp add: SplitYAML_data_def)
next
  case (Inr result)
  with assms(2) have "\<forall>i<length result.
      docResult ext cfg (rnd2 (length result + i)) (result ! i) =
      docResult ext cfg (rnd1 (length result + i)) (result ! i)" by blast
  from processDocs_cong[of result ext cfg "\<lambda>i. rnd2 (length result + i)"
      "\<lambda>i. rnd1 (length result + i)", OF this]
  show ?thesis using Inr assms(1) by (simp add: SplitYAML_data_def)
qed

lemma SplitYAML_data_twice_complete:
  assumes "SplitYAML_data ext cfg rnd data fs = (None, fs1)"
    and "SplitYAML_data ext cfg rnd data fs1 = (None, fs2)"
  shows "fs2 = fs1"
proof (cases "splitYAML ext rnd data")
  case (Inl e)
  with assms show ?thesis by (simp add: SplitYAML_data_def)
next
  case (Inr docs)
  with assms have "processDocs ext cfg (\<lambda>i. rnd (length docs + i)) docs fs = (None, fs1)"
    "processDocs ext cfg (\<lambda>i. rnd (length docs + i)) docs fs1 = (None, fs2)"
    by (simp_all add: SplitYAML_data_def)
  then show ?thesis by (rule run_twice_both_complete)
qed

lemma SplitYAML_data_twice_fixed_failures:
  assumes mk: "\<forall>fs fs' p. MkdirAll_fails ext fs p = MkdirAll_fails ext fs' p"
    and wr: "\<forall>fs fs' p. WriteFile_fails ext fs p = WriteFile_fails ext fs' p"
  shows "SplitYAML_data ext cfg rnd data (snd (SplitYAML_data ext cfg rnd data fs)) =
         SplitYAML_data ext cfg rnd data fs"
proof (cases "splitYAML ext rnd data")
  case (Inl e)
  then show ?thesis by (simp add: SplitYAML_data_def)
next
  case (Inr docs)
  then show ?thesis
    using run_twice_fixed_failures[OF mk wr, of cfg "\<lambda>i. rnd (length docs + i)" docs fs]
    by (simp add: SplitYAML_data_def)
qed

section \<open>The run on the concrete inputs\<close>

lemma toy_goyaml_Marshal: "goyaml_Marshal toy_externals order (GString s) = Inr s"
  by (simp add: toy_externals_def)

lemma sorted_plain_keys:
  "insertionSort keyList_Less [''apiVersion'', ''kind'', ''metadata''] =
     [''apiVersion'', ''kind'', ''metadata'']"
  by code_simp

lemma toy_map_keys:
  "\<not> hasPrefix doc ''S'' \<Longrightarrow> filter (\<lambda>key. toy_map doc key \<noteq> None) order1 =
     [''apiVersion'', ''kind'', ''metadata'']"
  "\<not> hasPrefix doc ''S'' \<Longrightarrow> filter (\<lambda>key. toy_map doc key \<noteq> None) order2 =
     [''apiVersion'', ''kind'', ''metadata'']"
  by (simp_all add: toy_map_def order1_def order2_def Let_def)

lemma toy_yaml_Marshal_plain:
  assumes "\<not> hasPrefix doc ''S''"
  shows "yaml_Marshal toy_externals order1 (Some (toy_map doc)) =
     Inr (''apiVersion kind metadata '' @
          (case metaField (toy_map doc) ''namespace'' of
             Some (GString n) \<Rightarrow> ''namespace: '' @ n
           | _ \<Rightarrow> ''no namespace''))"
  using toy_map_keys(1)[OF assms] by (simp add: toy_externals_def sorted_plain_keys)

lemma toy_yaml_Marshal_C:
  "yaml_Marshal toy_externals order1 (Some (toy_map ''C'')) =
      Inr ''apiVersion kind metadata namespace: ns-C''"
proof -
  have "\<not> hasPrefix ''C'' ''S''" by (simp add: hasPrefix_def)
  from toy_yaml_Marshal_plain[OF this] show ?thesis
    by (simp add: toy_map_def toy_object_def hasPrefix_def metaField_def)
qed

lemma toy_yaml_Marshal_N:
  "yaml_Marshal toy_externals order1 (Some (toy_map ''N'')) =
      Inr ''apiVersion kind metadata no namespace''"
proof -
  have "\<not> hasPrefix ''N'' ''S''" by (simp add: hasPrefix_def)
  from toy_yaml_Marshal_plain[OF this] show ?thesis
    by (simp add: toy_map_def toy_object_def hasPrefix_def metaField_def)
qed

lemma demo_config_simps [simp]:
  "cfg_Filename demo_config = ''bundle.yaml''"
  "cfg_Name demo_config = ''demo''" "cfg_Namespace demo_config = ''prod''"
  by (simp_all add: demo_config_def)

lemma toy_io [simp]:
  "MkdirAll_fails toy_externals fs p = False"
  "WriteFile_fails toy_externals fs p = False"
  by (simp_all add: toy_externals_def)

lemma toy_skip:
  "\<not> skipLine ''N''" "\<not> skipLine ''D''" "\<not> skipLine ''C''" "\<not> skipLine ''c''"
  "\<not> skipLine ''S''"
  by (simp_all add: skipLine_trimLeft trimLeft_no_space leadingSpace_def whiteSpace_def
      hasPrefix_def)

lemma toy_clean:
  "clean ''N'' = Inr [CHR ''N'', LF]" "clean ''D'' = Inr [CHR ''D'', LF]"
  "clean ''C'' = Inr [CHR ''C'', LF]" "clean ''c'' = Inr [CHR ''c'', LF]"
  "clean ''S'' = Inr [CHR ''S'', LF]"
  using clean_loop_eval(3)[of "''N''" "[]"] clean_loop_eval(3)[of "''D''" "[]"]
    clean_loop_eval(3)[of "''C''" "[]"] clean_loop_eval(3)[of "''c''" "[]"]
    clean_loop_eval(3)[of "''S''" "[]"]
  by (simp_all add: clean_def maxScanTokenSize_def dropCR_def toy_skip)

lemma toy_objects:
  "toy_object [CHR ''N'', LF] = \<lparr>Kind = ''Namespace'', APIVersion = ''v1'',
        Metadata = \<lparr>Name = ''demo'', Namespace = [], Labels = Mapping.empty, Annotations = Mapping.empty\<rparr>\<rparr>"
  "toy_object [CHR ''D'', LF] = \<lparr>Kind = ''Deployment'', APIVersion = ''apps/v1'',
        Metadata = \<lparr>Name = ''web'', Namespace = [], Labels = Mapping.empty, Annotations = Mapping.empty\<rparr>\<rparr>"
  "toy_object [CHR ''C'', LF] = \<lparr>Kind = ''ConfigMap'', APIVersion = ''v1'',
        Metadata = \<lparr>Name = ''cfg'', Namespace = ''ns-C'', Labels = Mapping.empty, Annotations = Mapping.empty\<rparr>\<rparr>"
  "toy_object [CHR ''c'', LF] = \<lparr>Kind = ''ConfigMap'', APIVersion = ''v1'',
        Metadata = \<lparr>Name = ''cfg'', Namespace = ''ns-c'', Labels = Mapping.empty, Annotations = Mapping.empty\<rparr>\<rparr>"
  "toy_object [CHR ''S'', LF] = \<lparr>Kind = ''Secret'', APIVersion = ''v1'',
        Metadata = \<lparr>Name = ''keys'', Namespace = ''vault'', Labels = Mapping.empty, Annotations = Mapping.empty\<rparr>\<rparr>"
  by (simp_all add: toy_object_def hasPrefix_def)

lemma sorted_keys:
  "insertionSort keyList_Less order1 = [''2'', ''10'', ''1a'', ''apiVersion'', ''kind'', ''metadata'']"
  "insertionSort keyList_Less order2 = [''10'', ''1a'', ''2'', ''apiVersion'', ''kind'', ''metadata'']"
  by code_simp+

lemma toy_yaml_Marshal_three:
  assumes "order = order1 \<or> order = order2"
    and "m ''2'' = None" "m ''10'' = None" "m ''1a'' = None"
    and "m ''apiVersion'' = Some a" "m ''kind'' = Some k" "m ''metadata'' = Some md"
  shows "yaml_Marshal toy_externals order (Some m) =
     Inr (''apiVersion kind metadata '' @
          (case metaField m ''namespace'' of
             Some (GString n) \<Rightarrow> ''namespace: '' @ n
           | _ \<Rightarrow> ''no namespace''))"
  using assms(1)
proof
  assume "order = order1"
  then show ?thesis
    by (simp add: toy_externals_def order1_def assms(2-) sorted_plain_keys)
next
  assume "order = order2"
  then show ?thesis
    by (simp add: toy_externals_def order2_def assms(2-) sorted_plain_keys)
qed

lemma toy_yaml_Marshal_six:
  assumes "m ''2'' = Some x" "m ''10'' = Some y" "m ''1a'' = Some z"
    and "m ''apiVersion'' = Some a" "m ''kind'' = Some k" "m ''metadata'' = Some md"
  shows "yaml_Marshal toy_externals order1 (Some m) =
     Inr (''2 10 1a apiVersion kind metadata '' @
          (case metaField m ''namespace'' of
             Some (GString n) \<Rightarrow> ''namespace: '' @ n
           | _ \<Rightarrow> ''no namespace''))"
    and "yaml_Marshal toy_externals order2 (Some m) =
     Inr (''10 1a 2 apiVersion kind metadata '' @
          (case metaField m ''namespace'' of
             Some (GString n) \<Rightarrow> ''namespace: '' @ n
           | _ \<Rightarrow> ''no namespace''))"
proof -
  have 1: "filter (\<lambda>key. m key \<noteq> None) order1 = order1"
    by (simp add: order1_def assms)
  have 2: "filter (\<lambda>key. m key \<noteq> None) order2 = order2"
    by (simp add: order2_def assms)
  show "yaml_Marshal toy_externals order1 (Some m) =
     Inr (''2 10 1a apiVersion kind metadata '' @
          (case metaField m ''namespace'' of
             Some (GString n) \<Rightarrow> ''namespace: '' @ n
           | _ \<Rightarrow> ''no namespace''))"
    using 1 by (simp add: toy_externals_def sorted_keys)
  show "yaml_Marshal toy_externals order2 (Some m) =
     Inr (''10 1a 2 apiVersion kind metadata '' @
          (case metaField m ''namespace'' of
             Some (GString n) \<Rightarrow> ''namespace: '' @ n
           | _ \<Rightarrow> ''no namespace''))"
    using 2 by (simp add: toy_externals_def sorted_keys)
qed

lemma toy_prepare:
  "prepare toy_externals ''prod'' [CHR ''N'', LF] =
     Inr (Some (toy_map [CHR ''N'', LF]), toy_object [CHR ''N'', LF])"
  "prepare toy_externals ''prod'' [CHR ''D'', LF] =
     Inr (Some ((toy_map [CHR ''D'', LF])(''metadata'' \<mapsto>
            GMetadata ((Metadata (toy_object [CHR ''D'', LF]))\<lparr>Namespace := ''prod''\<rparr>))),
          (toy_object [CHR ''D'', LF])\<lparr>Metadata :=
            (Metadata (toy_object [CHR ''D'', LF]))\<lparr>Namespace := ''prod''\<rparr>\<rparr>)"
  "prepare toy_externals ''prod'' [CHR ''C'', LF] =
     Inr (Some (toy_map [CHR ''C'', LF]), toy_object [CHR ''C'', LF])"
  "prepare toy_externals ''prod'' [CHR ''c'', LF] =
     Inr (Some (toy_map [CHR ''c'', LF]), toy_object [CHR ''c'', LF])"
  "prepare toy_externals ''prod'' [CHR ''S'', LF] =
     Inr (Some (toy_map [CHR ''S'', LF]), toy_object [CHR ''S'', LF])"
  by (simp_all add: prepare_def toy_externals_def toy_objects setNamespace_def Let_def)

lemma toy_encoded:
  assumes "order = order1 \<or> order = order2"
  shows
  "yaml_Marshal toy_externals order (Some (toy_map [CHR ''N'', LF])) =
     Inr ''apiVersion kind metadata no namespace''"
  "yaml_Marshal toy_externals order (Some ((toy_map [CHR ''D'', LF])(''metadata'' \<mapsto>
      GMetadata ((Metadata (toy_object [CHR ''D'', LF]))\<lparr>Namespace := ''prod''\<rparr>)))) =
     Inr ''apiVersion kind metadata namespace: prod''"
  "yaml_Marshal toy_externals order (Some (toy_map [CHR ''C'', LF])) =
     Inr ''apiVersion kind metadata namespace: ns-C''"
  "yaml_Marshal toy_externals order (Some (toy_map [CHR ''c'', LF])) =
     Inr ''apiVersion kind metadata namespace: ns-c''"
  by (subst toy_yaml_Marshal_three[OF assms];
      simp add: toy_map_def toy_objects hasPrefix_def metaField_def)+

lemma toy_encoded_secret:
  "yaml_Marshal toy_externals order1 (Some (toy_map [CHR ''S'', LF])) =
     Inr ''2 10 1a apiVersion kind metadata namespace: vault''"
  "yaml_Marshal toy_externals order2 (Some (toy_map [CHR ''S'', LF])) =
     Inr ''10 1a 2 apiVersion kind metadata namespace: vault''"
proof -
  show "yaml_Marshal toy_externals order1 (Some (toy_map [CHR ''S'', LF])) =
     Inr ''2 10 1a apiVersion kind metadata namespace: vault''"
    by (subst toy_yaml_Marshal_six(1);
        simp add: toy_map_def toy_objects hasPrefix_def metaField_def)
  show "yaml_Marshal toy_externals order2 (Some (toy_map [CHR ''S'', LF])) =
     Inr ''10 1a 2 apiVersion kind metadata namespace: vault''"
    by (subst toy_yaml_Marshal_six(2);
        simp add: toy_map_def toy_objects hasPrefix_def metaField_def)
qed

lemma toy_normalize:
  assumes "order = order1 \<or> order = order2"
  shows
  "normalize toy_externals order ''prod'' [CHR ''N'', LF] =
     Inr (''apiVersion kind metadata no namespace'', toy_object [CHR ''N'', LF])"
  "normalize toy_externals order ''prod'' [CHR ''D'', LF] =
     Inr (''apiVersion kind metadata namespace: prod'',
          (toy_object [CHR ''D'', LF])\<lparr>Metadata := (Metadata (toy_object [CHR ''D'', LF]))\<lparr>Namespace := ''prod''\<rparr>\<rparr>)"
  "normalize toy_externals order ''prod'' [CHR ''C'', LF] =
     Inr (''apiVersion kind metadata namespace: ns-C'', toy_object [CHR ''C'', LF])"
  "normalize toy_externals order ''prod'' [CHR ''c'', LF] =
     Inr (''apiVersion kind metadata namespace: ns-c'', toy_object [CHR ''c'', LF])"
  by (simp_all only: normalize_def toy_prepare toy_encoded[OF assms] sum.case prod.case)

lemma toy_normalize_secret:
  "normalize toy_externals order1 ''prod'' [CHR ''S'', LF] =
     Inr (''2 10 1a apiVersion kind metadata namespace: vault'', toy_object [CHR ''S'', LF])"
  "normalize toy_externals order2 ''prod'' [CHR ''S'', LF] =
     Inr (''10 1a 2 apiVersion kind metadata namespace: vault'', toy_object [CHR ''S'', LF])"
  by (simp_all only: normalize_def toy_prepare toy_encoded_secret sum.case prod.case)

lemma toy_docResult:
  assumes "order = order1 \<or> order = order2"
  shows
  "docResult toy_externals demo_config order ''N'' =
     Inr (''apiVersion kind metadata no namespace'', toy_object [CHR ''N'', LF])"
  "docResult toy_externals demo_config order ''D'' =
     Inr (''apiVersion kind metadata namespace: prod'',
          (toy_object [CHR ''D'', LF])\<lparr>Metadata := (Metadata (toy_object [CHR ''D'', LF]))\<lparr>Namespace := ''prod''\<rparr>\<rparr>)"
  "docResult toy_externals demo_config order ''C'' =
     Inr (''apiVersion kind metadata namespace: ns-C'', toy_object [CHR ''C'', LF])"
  "docResult toy_externals demo_config order ''c'' =
     Inr (''apiVersion kind metadata namespace: ns-c'', toy_object [CHR ''c'', LF])"
  using toy_normalize[OF assms] by (simp_all add: docResult_def toy_clean)

lemma toy_docResult_secret:
  "docResult toy_externals demo_config order1 ''S'' =
     Inr (''2 10 1a apiVersion kind metadata namespace: vault'', toy_object [CHR ''S'', LF])"
  "docResult toy_externals demo_config order2 ''S'' =
     Inr (''10 1a 2 apiVersion kind metadata namespace: vault'', toy_object [CHR ''S'', LF])"
  using toy_normalize_secret by (simp_all add: docResult_def toy_clean)

lemma toy_fileName:
  "fileName demo_config (toy_object [CHR ''N'', LF]) = ''working/demo/Namespace_demo.yaml''"
  "fileName demo_config ((toy_object [CHR ''D'', LF])\<lparr>Metadata := (Metadata (toy_object [CHR ''D'', LF]))\<lparr>Namespace := ''prod''\<rparr>\<rparr>) = ''working/demo/Deployment_web.yaml''"
  "fileName demo_config (toy_object [CHR ''C'', LF]) = ''working/demo/ConfigMap_cfg.yaml''"
  "fileName demo_config (toy_object [CHR ''c'', LF]) = ''working/demo/ConfigMap_cfg.yaml''"
  "fileName demo_config (toy_object [CHR ''S'', LF]) = ''working/demo/Secret_keys.yaml''"
  by (simp_all add: fileName_def toy_objects)

lemma toy_dirChain: "dirChain ''working/demo'' = [''working'', ''working/demo'']"
  by code_simp

lemma toy_processDoc:
  assumes "order = order1 \<or> order = order2"
  shows
  "processDoc toy_externals demo_config order ''N'' fs =
     (None, fs\<lparr>dirs := dirs fs \<union> set (dirChain ''working/demo''),
                files := (files fs)(''working/demo/Namespace_demo.yaml'' \<mapsto>
                  ''apiVersion kind metadata no namespace'')\<rparr>)"
  "processDoc toy_externals demo_config order ''D'' fs =
     (None, fs\<lparr>dirs := dirs fs \<union> set (dirChain ''working/demo''),
                files := (files fs)(''working/demo/Deployment_web.yaml'' \<mapsto>
                  ''apiVersion kind metadata namespace: prod'')\<rparr>)"
  "processDoc toy_externals demo_config order ''C'' fs =
     (None, fs\<lparr>dirs := dirs fs \<union> set (dirChain ''working/demo''),
                files := (files fs)(''working/demo/ConfigMap_cfg.yaml'' \<mapsto>
                  ''apiVersion kind metadata namespace: ns-C'')\<rparr>)"
  "processDoc toy_externals demo_config order ''c'' fs =
     (None, fs\<lparr>dirs := dirs fs \<union> set (dirChain ''working/demo''),
                files := (files fs)(''working/demo/ConfigMap_cfg.yaml'' \<mapsto>
                  ''apiVersion kind metadata namespace: ns-c'')\<rparr>)"
  by (simp_all add: processDoc_docResult toy_docResult[OF assms] emit_def MkdirAll_def
      WriteFile_def toy_fileName)

lemma toy_processDoc_secret:
  "processDoc toy_externals demo_config order1 ''S'' fs =
     (None, fs\<lparr>dirs := dirs fs \<union> set (dirChain ''working/demo''),
                files := (files fs)(''working/demo/Secret_keys.yaml'' \<mapsto>
                  ''2 10 1a apiVersion kind metadata namespace: vault'')\<rparr>)"
  "processDoc toy_externals demo_config order2 ''S'' fs =
     (None, fs\<lparr>dirs := dirs fs \<union> set (dirChain ''working/demo''),
                files := (files fs)(''working/demo/Secret_keys.yaml'' \<mapsto>
                  ''10 1a 2 apiVersion kind metadata namespace: vault'')\<rparr>)"
  by (simp_all add: processDoc_docResult toy_docResult_secret emit_def MkdirAll_def
      WriteFile_def toy_fileName)


lemma toy_splitYAML:
  "splitYAML toy_externals rnd ''N-CDc'' = Inr [''N'', ''C'', ''D'', ''c'']"
  "splitYAML toy_externals rnd ''-S'' = Inr [''S'']"
  by (simp_all add: splitYAML_def toy_externals_def)

lemma un_twice: "A \<union> B \<union> B = A \<union> B"
  by blast

lemma toy_dirs: "{''working'', ''working/demo''} = set (dirChain ''working/demo'')"
  by (simp add: toy_dirChain)

lemma toy_run:
  "SplitYAML toy_externals demo_config rnd1 bundle_fs = (None, bundle_done)"
  "SplitYAML toy_externals demo_config rnd2 bundle_fs = (None, bundle_done)"
  "SplitYAML toy_externals demo_config rnd1 bundle_done = (None, bundle_done)"
  "SplitYAML toy_externals demo_config rnd2 bundle_done = (None, bundle_done)"
  by (simp_all add: SplitYAML_def ReadFile_def SplitYAML_data_def toy_splitYAML
      toy_processDoc rnd1_def rnd2_def bundle_fs_def bundle_done_def toy_dirs un_twice
      fun_upd_twist)

lemma toy_run_secret:
  "SplitYAML toy_externals demo_config rnd1 secret_fs = (None, secret_done1)"
  "SplitYAML toy_externals demo_config rnd2 secret_done1 = (None, secret_done2)"
  by (simp_all add: SplitYAML_def ReadFile_def SplitYAML_data_def toy_splitYAML
      toy_processDoc_secret rnd1_def rnd2_def secret_fs_def secret_done1_def secret_done2_def
      toy_dirs un_twice)

lemma toy_empty_document:
  "yaml_Unmarshal_map toy_externals [] = Inr None"
  "yaml_Unmarshal_k8sObject toy_externals [] = Inr (toy_object [])"
  "\<not> IsClusterScoped toy_externals (Kind (toy_object [])) (APIVersion (toy_object []))"
  "Namespace (Metadata (toy_object [])) = []"
  by (simp_all add: toy_externals_def toy_object_def)

section \<open>The claims\<close>

text \<open>
  C1. The claim fails in the code on a namespace-scoped document without a namespace
  whose metadata has a field outside the typed view: \<^verbatim>\<open>metadata.finalizers\<close> is in the
  decoded mapping and not in the mapping that is encoded, since line 131 stores the typed
  struct of four fields under \<^verbatim>\<open>metadata\<close>. The same document keeps the field when
  its namespace is set and when its kind is cluster-scoped, the two paths on which the
  mapping stays as decoded.
\<close>

theorem setNamespace_drops_unknown_metadata:
  "metaField finalizers_objectMap ''finalizers'' = Some (GSlice [GString ''keep'']) \<and>
   (case setNamespace (\<lambda>kind apiVersion. False) ''prod'' (Some finalizers_objectMap)
           finalizers_object of
      Inr (Some objectMap', metadataObject') \<Rightarrow>
        metaField objectMap' ''finalizers'' = None \<and>
        metaField objectMap' ''namespace'' = Some (GString ''prod'')
    | _ \<Rightarrow> False) \<and>
   (case setNamespace (\<lambda>kind apiVersion. False) ''prod'' (Some finalizers_objectMap)
           (finalizers_object\<lparr>Metadata := (Metadata finalizers_object)\<lparr>Namespace := ''dev''\<rparr>\<rparr>) of
      Inr (Some objectMap', metadataObject') \<Rightarrow>
        metaField objectMap' ''finalizers'' = Some (GSlice [GString ''keep''])
    | _ \<Rightarrow> False) \<and>
   (case setNamespace (\<lambda>kind apiVersion. True) ''prod'' (Some finalizers_objectMap)
           finalizers_object of
      Inr (Some objectMap', metadataObject') \<Rightarrow>
        metaField objectMap' ''finalizers'' = Some (GSlice [GString ''keep''])
    | _ \<Rightarrow> False)"
  by (simp add: setNamespace_def Let_def finalizers_objectMap_def finalizers_object_def
      metaField_def)

text \<open>
  C2. For a namespace-scoped document whose typed \<^verbatim>\<open>metadata.namespace\<close> is a non-empty
  \<open>N\<close>, whatever the configured default: the namespace step changes nothing, the
  Normalizer encodes the decoded mapping as it is, and the namespace of the typed view
  stays \<open>N\<close>.
\<close>

theorem normalize_keeps_explicit_namespace:
  assumes "yaml_Unmarshal_map ext cleanres = Inr objectMap"
    and "yaml_Unmarshal_k8sObject ext cleanres = Inr metadataObject"
    and "\<not> IsClusterScoped ext (Kind metadataObject) (APIVersion metadataObject)"
    and "Namespace (Metadata metadataObject) = N"
    and "N \<noteq> []"
  shows "\<exists>objectMap' metadataObject'.
      setNamespace (IsClusterScoped ext) ns objectMap metadataObject =
        Inr (objectMap', metadataObject') \<and>
      normalize ext r ns cleanres =
        (case yaml_Marshal ext r objectMap' of
           Inl err \<Rightarrow> Inl err
         | Inr updatedCleanres \<Rightarrow> Inr (updatedCleanres, metadataObject')) \<and>
      objectMap' = objectMap \<and>
      Namespace (Metadata metadataObject') = N"
proof -
  have s: "setNamespace (IsClusterScoped ext) ns objectMap metadataObject =
      Inr (objectMap, metadataObject)"
    using assms(4,5) by (intro setNamespace_unchanged) simp
  from normalize_after_setNamespace[OF assms(1,2) s] s assms(4) show ?thesis by blast
qed

text \<open>
  The theorem on a ConfigMap of the concrete inputs that names its namespace.
\<close>

theorem normalize_keeps_explicit_namespace_witness:
  "yaml_Unmarshal_map toy_externals ''C'' = Inr (Some (toy_map ''C'')) \<and>
   yaml_Unmarshal_k8sObject toy_externals ''C'' = Inr (toy_object ''C'') \<and>
   \<not> IsClusterScoped toy_externals (Kind (toy_object ''C'')) (APIVersion (toy_object ''C'')) \<and>
   Namespace (Metadata (toy_object ''C'')) = ''ns-C'' \<and>
   normalize toy_externals order1 ''prod'' ''C'' =
     Inr (''apiVersion kind metadata namespace: ns-C'', toy_object ''C'')"
proof -
  have 1: "yaml_Unmarshal_map toy_externals ''C'' = Inr (Some (toy_map ''C''))"
    by (simp add: toy_externals_def)
  have 2: "yaml_Unmarshal_k8sObject toy_externals ''C'' = Inr (toy_object ''C'')"
    by (simp add: toy_externals_def)
  have 3: "\<not> IsClusterScoped toy_externals (Kind (toy_object ''C'')) (APIVersion (toy_object ''C''))"
    by (simp add: toy_externals_def toy_object_def hasPrefix_def)
  have 4: "Namespace (Metadata (toy_object ''C'')) = ''ns-C''"
    by (simp add: toy_object_def hasPrefix_def)
  have 5: "''ns-C'' \<noteq> []" by simp
  have m: "yaml_Marshal toy_externals order1 (Some (toy_map ''C'')) =
      Inr ''apiVersion kind metadata namespace: ns-C''"
    by (rule toy_yaml_Marshal_C)
  from normalize_keeps_explicit_namespace[OF 1 2 3 4 5, of "''prod''" order1] m
  have "normalize toy_externals order1 ''prod'' ''C'' =
     Inr (''apiVersion kind metadata namespace: ns-C'', toy_object ''C'')"
    by (auto simp: setNamespace_unchanged 4)
  with 1 2 3 4 show ?thesis by simp
qed

text \<open>
  C3. For a document whose kind and API version are classified cluster-scoped, the
  Normalizer encodes the decoded mapping as it is: the encoded mapping has a
  \<^verbatim>\<open>metadata.namespace\<close> field only if the decoded one has it.
\<close>

theorem normalize_cluster_scoped_no_injection:
  assumes "yaml_Unmarshal_map ext cleanres = Inr objectMap"
    and "yaml_Unmarshal_k8sObject ext cleanres = Inr metadataObject"
    and "IsClusterScoped ext (Kind metadataObject) (APIVersion metadataObject)"
  shows "\<exists>objectMap' metadataObject'.
      setNamespace (IsClusterScoped ext) ns objectMap metadataObject =
        Inr (objectMap', metadataObject') \<and>
      normalize ext r ns cleanres =
        (case yaml_Marshal ext r objectMap' of
           Inl err \<Rightarrow> Inl err
         | Inr updatedCleanres \<Rightarrow> Inr (updatedCleanres, metadataObject')) \<and>
      objectMap' = objectMap \<and>
      (hasNamespaceField objectMap' \<longrightarrow> hasNamespaceField objectMap)"
proof -
  have s: "setNamespace (IsClusterScoped ext) ns objectMap metadataObject =
      Inr (objectMap, metadataObject)"
    using assms(3) by (intro setNamespace_unchanged) simp
  from normalize_after_setNamespace[OF assms(1,2) s] s show ?thesis by blast
qed

text \<open>
  The theorem on the Namespace manifest of the concrete inputs, which has no namespace
  field before and none after.
\<close>

theorem normalize_cluster_scoped_no_injection_witness:
  "yaml_Unmarshal_map toy_externals ''N'' = Inr (Some (toy_map ''N'')) \<and>
   yaml_Unmarshal_k8sObject toy_externals ''N'' = Inr (toy_object ''N'') \<and>
   IsClusterScoped toy_externals (Kind (toy_object ''N'')) (APIVersion (toy_object ''N'')) \<and>
   \<not> hasNamespaceField (Some (toy_map ''N'')) \<and>
   normalize toy_externals order1 ''prod'' ''N'' =
     Inr (''apiVersion kind metadata no namespace'', toy_object ''N'')"
proof -
  have 1: "yaml_Unmarshal_map toy_externals ''N'' = Inr (Some (toy_map ''N''))"
    by (simp add: toy_externals_def)
  have 2: "yaml_Unmarshal_k8sObject toy_externals ''N'' = Inr (toy_object ''N'')"
    by (simp add: toy_externals_def)
  have 3: "IsClusterScoped toy_externals (Kind (toy_object ''N'')) (APIVersion (toy_object ''N''))"
    by (simp add: toy_externals_def toy_object_def hasPrefix_def)
  have h: "\<not> hasNamespaceField (Some (toy_map ''N''))"
    by (simp add: hasNamespaceField_def toy_map_def toy_object_def hasPrefix_def metaField_def)
  have m: "yaml_Marshal toy_externals order1 (Some (toy_map ''N'')) =
      Inr ''apiVersion kind metadata no namespace''"
    by (rule toy_yaml_Marshal_N)
  from normalize_cluster_scoped_no_injection[OF 1 2 3, of "''prod''" order1] m
  have "normalize toy_externals order1 ''prod'' ''N'' =
     Inr (''apiVersion kind metadata no namespace'', toy_object ''N'')"
    by (auto simp: setNamespace_unchanged 3)
  with 1 2 3 h show ?thesis by simp
qed

text \<open>
  C4 (amended). On every input whose lines are all shorter than the scanner's token limit,
  the Line Sanitizer returns the lines that the specification does not remove, in order,
  each without its end-of-line marker and followed by one newline; a line is removed
  exactly when it holds \<^verbatim>\<open>---\<close>, starts with \<^verbatim>\<open>#\<close> after leading white space,
  or holds one of the two provenance substrings. On an input with a longer line it
  returns \<^verbatim>\<open>ErrTooLong\<close>. On the five lines of the specification's example the output
  is the first and the last line.
\<close>

theorem clean_removes_exactly:
  "((\<forall>l\<in>set (rawLines input). length l < maxScanTokenSize) \<longrightarrow>
      clean input =
        Inr (render (filter (\<lambda>l. \<not> spec_removed l) (map dropCR (rawLines input))))) \<and>
   ((\<exists>l\<in>set (rawLines input). maxScanTokenSize \<le> length l) \<longrightarrow>
      clean input = Inl ErrTooLong) \<and>
   clean (render [''apiVersion: v1'', ''# comment'', ''---'',
                  ''  app.kubernetes.io/managed-by: Helm'', ''kind: Pod'']) =
     Inr (render [''apiVersion: v1'', ''kind: Pod''])"
proof (intro conjI impI)
  assume "\<forall>l\<in>set (rawLines input). length l < maxScanTokenSize"
  then show "clean input =
      Inr (render (filter (\<lambda>l. \<not> spec_removed l) (map dropCR (rawLines input))))"
    using clean_loop_lines[of input "[]"] by (simp add: clean_def skipLine_iff)
next
  assume "\<exists>l\<in>set (rawLines input). maxScanTokenSize \<le> length l"
  then show "clean input = Inl ErrTooLong"
    unfolding clean_def by (rule clean_loop_too_long)
next
  show "clean (render [''apiVersion: v1'', ''# comment'', ''---'',
                  ''  app.kubernetes.io/managed-by: Helm'', ''kind: Pod'']) =
     Inr (render [''apiVersion: v1'', ''kind: Pod''])"
    using example_terminated by (simp add: render_def)
qed

text \<open>
  The theorem at two inputs: three short lines, one of them a comment and one ending in
  a carriage return, and a single line of 65536 bytes.
\<close>

theorem clean_removes_exactly_witness:
  "rawLines (''a'' @ [CR, LF] @ ''# b'' @ [LF] @ ''c'') = [''a'' @ [CR], ''# b'', ''c''] \<and>
   clean (''a'' @ [CR, LF] @ ''# b'' @ [LF] @ ''c'') = Inr (''a'' @ [LF] @ ''c'' @ [LF]) \<and>
   rawLines (replicate 65536 (CHR ''a'')) = [replicate 65536 (CHR ''a'')] \<and>
   clean (replicate 65536 (CHR ''a'')) = Inl ErrTooLong"
proof -
  have l2: "rawLines (replicate 65536 (CHR ''a'')) = [replicate 65536 (CHR ''a'')]"
    by (rule rawLines_single) simp_all
  have 1: "clean (''a'' @ [CR, LF] @ ''# b'' @ [LF] @ ''c'') = Inr (''a'' @ [LF] @ ''c'' @ [LF])"
    using clean_removes_exactly[of "''a'' @ [CR, LF] @ ''# b'' @ [LF] @ ''c''"]
    unfolding witness_lines
    by (simp add: maxScanTokenSize_def dropCR_def witness_removed render_def)
  have 2: "clean (replicate 65536 (CHR ''a'')) = Inl ErrTooLong"
    using clean_removes_exactly[of "replicate 65536 (CHR ''a'')"]
    unfolding l2 by (simp add: maxScanTokenSize_def)
  show ?thesis using witness_lines l2 1 2 by simp
qed

text \<open>
  C4 as stated, for every input byte sequence, fails on a line of 65536 bytes: the line is
  none of those the specification removes, and the Sanitizer returns no output at all.
\<close>

theorem clean_long_line_counterexample:
  "\<not> spec_removed (replicate 65536 (CHR ''a'')) \<and>
   clean (replicate 65536 (CHR ''a'')) = Inl ErrTooLong"
  using long_line_not_removed long_line_fails by simp

text \<open>
  C5. When every document of the stream decodes and each call of the encoder accepts
  the non-null value it is given, whatever the runtime picks in it, the Document
  Splitter returns as many documents as there are non-null values, each the encoding of
  one of them, in the order of the stream.
\<close>

theorem splitYAML_returns_nonempty_documents:
  assumes "goyaml_Decode ext resources = map Inr values"
    and "\<forall>i<length (filter (\<lambda>v. v \<noteq> GNil) values).
           \<exists>b. goyaml_Marshal ext (rnd i) (filter (\<lambda>v. v \<noteq> GNil) values ! i) = Inr b"
  shows "\<exists>out. splitYAML ext rnd resources = Inr out \<and>
           length out = length (filter (\<lambda>v. v \<noteq> GNil) values) \<and>
           map Inr out =
             map (\<lambda>i. goyaml_Marshal ext (rnd i) (filter (\<lambda>v. v \<noteq> GNil) values ! i))
               [0..<length (filter (\<lambda>v. v \<noteq> GNil) values)]"
proof -
  define nonnull where "nonnull = filter (\<lambda>v. v \<noteq> GNil) values"
  from splitYAML_loop_valid[of "values" "goyaml_Marshal ext" rnd "[]", OF assms(2)]
  obtain out where
    out: "splitYAML_loop (goyaml_Marshal ext) rnd (map Inr values) [] = Inr out"
      "length out = length nonnull"
      "\<forall>i<length out. goyaml_Marshal ext (rnd i) (nonnull ! i) = Inr (out ! i)"
    unfolding nonnull_def by auto
  have "map Inr out = map (\<lambda>i. goyaml_Marshal ext (rnd i) (nonnull ! i)) [0..<length nonnull]"
  proof (rule nth_equalityI)
    show "length (map Inr out) =
        length (map (\<lambda>i. goyaml_Marshal ext (rnd i) (nonnull ! i)) [0..<length nonnull])"
      using out(2) by simp
  next
    fix i assume "i < length (map Inr out :: (error + bytes) list)"
    then have i: "i < length out" by simp
    with out(3) have "goyaml_Marshal ext (rnd i) (nonnull ! i) = Inr (out ! i)" by blast
    with i out(2) show "map Inr out ! i =
        map (\<lambda>i. goyaml_Marshal ext (rnd i) (nonnull ! i)) [0..<length nonnull] ! i"
      by simp
  qed
  with out(1,2) show ?thesis unfolding nonnull_def by (simp add: splitYAML_def assms(1))
qed

text \<open>
  The theorem on a stream of a manifest, a null document and a second manifest.
\<close>

theorem splitYAML_returns_nonempty_documents_witness:
  "goyaml_Decode toy_externals ''N-D'' = map Inr [GString ''N'', GNil, GString ''D''] \<and>
   goyaml_Marshal toy_externals (rnd1 0) (GString ''N'') = Inr ''N'' \<and>
   goyaml_Marshal toy_externals (rnd1 1) (GString ''D'') = Inr ''D'' \<and>
   splitYAML toy_externals rnd1 ''N-D'' = Inr [''N'', ''D'']"
proof -
  have d: "goyaml_Decode toy_externals ''N-D'' = map Inr [GString ''N'', GNil, GString ''D'']"
    by (simp add: toy_externals_def)
  have f: "filter (\<lambda>v. v \<noteq> GNil) [GString ''N'', GNil, GString ''D''] =
      [GString ''N'', GString ''D'']" by simp
  have m: "\<forall>i<length (filter (\<lambda>v. v \<noteq> GNil) [GString ''N'', GNil, GString ''D'']).
      \<exists>b. goyaml_Marshal toy_externals (rnd1 i)
             (filter (\<lambda>v. v \<noteq> GNil) [GString ''N'', GNil, GString ''D''] ! i) = Inr b"
    unfolding f by (simp add: less_Suc_eq toy_goyaml_Marshal)
  from splitYAML_returns_nonempty_documents[OF d m] obtain out where
    "splitYAML toy_externals rnd1 ''N-D'' = Inr out"
    "map Inr out =
       map (\<lambda>i. goyaml_Marshal toy_externals (rnd1 i)
                  (filter (\<lambda>v. v \<noteq> GNil) [GString ''N'', GNil, GString ''D''] ! i))
         [0..<length (filter (\<lambda>v. v \<noteq> GNil) [GString ''N'', GNil, GString ''D''])]"
    by blast
  moreover from this(2) have "out = [''N'', ''D'']"
    unfolding f by (simp add: toy_goyaml_Marshal upt_rec map_eq_Cons_conv)
  ultimately show ?thesis using d by (simp add: toy_goyaml_Marshal)
qed

text \<open>
  C6. When a document of the stream fails to decode, the Document Splitter returns an
  error and no documents, whatever follows the failing document; the error is the
  decoder's when the encoder accepted the non-null documents before it.
\<close>

theorem splitYAML_stops_at_first_error:
  assumes "goyaml_Decode ext resources = map Inr values @ Inl err # rest"
  shows "(\<exists>e. splitYAML ext rnd resources = Inl e) \<and>
         ((\<forall>i<length (filter (\<lambda>v. v \<noteq> GNil) values).
             \<exists>b. goyaml_Marshal ext (rnd i) (filter (\<lambda>v. v \<noteq> GNil) values ! i) = Inr b) \<longrightarrow>
            splitYAML ext rnd resources = Inl err)"
  using splitYAML_loop_error[of "goyaml_Marshal ext" rnd "values" err rest "[]"]
    splitYAML_loop_first_error[of "values" "goyaml_Marshal ext" rnd err rest "[]"]
  by (simp add: splitYAML_def assms)

text \<open>
  The theorem on a stream whose third document is a syntax error.
\<close>

theorem splitYAML_stops_at_first_error_witness:
  "goyaml_Decode toy_externals ''N-!D'' =
     map Inr [GString ''N'', GNil] @ Inl (YAMLError ''syntax'') # [Inr (GString ''D'')] \<and>
   goyaml_Marshal toy_externals (rnd1 0) (GString ''N'') = Inr ''N'' \<and>
   splitYAML toy_externals rnd1 ''N-!D'' = Inl (YAMLError ''syntax'')"
proof -
  have d: "goyaml_Decode toy_externals ''N-!D'' =
     map Inr [GString ''N'', GNil] @ Inl (YAMLError ''syntax'') # [Inr (GString ''D'')]"
    by (simp add: toy_externals_def)
  have m: "\<forall>i<length (filter (\<lambda>v. v \<noteq> GNil) [GString ''N'', GNil]).
      \<exists>b. goyaml_Marshal toy_externals (rnd1 i)
             (filter (\<lambda>v. v \<noteq> GNil) [GString ''N'', GNil] ! i) = Inr b"
    by (simp add: toy_goyaml_Marshal)
  from splitYAML_stops_at_first_error[OF d, of rnd1] m
  have "splitYAML toy_externals rnd1 ''N-!D'' = Inl (YAMLError ''syntax'')" by blast
  then show ?thesis using d by (simp add: toy_goyaml_Marshal)
qed






text \<open>
  C9 (amended). Let two runs of the split read the same bytes, and let the second split
  them into the same documents and normalize each document to the same bytes as the
  first. When both runs complete, the second leaves the state of the first. When the
  failure of a directory creation or of a write does not depend on the state of the file
  system, the second run ends as the first did, with its error if it had one, in the
  state the first left.
\<close>

theorem SplitYAML_run_twice_same_encoding:
  assumes "ReadFile fs (cfg_Filename cfg) = Inr data"
    and "ReadFile fs1 (cfg_Filename cfg) = Inr data"
    and "splitYAML ext rnd2 data = splitYAML ext rnd1 data"
    and "\<forall>result. splitYAML ext rnd1 data = Inr result \<longrightarrow>
           (\<forall>i<length result.
              docResult ext cfg (rnd2 (length result + i)) (result ! i) =
              docResult ext cfg (rnd1 (length result + i)) (result ! i))"
  shows "(SplitYAML ext cfg rnd1 fs = (None, fs1) \<and>
          SplitYAML ext cfg rnd2 fs1 = (None, fs2) \<longrightarrow> fs2 = fs1) \<and>
         ((\<forall>fs fs' p. MkdirAll_fails ext fs p = MkdirAll_fails ext fs' p) \<and>
          (\<forall>fs fs' p. WriteFile_fails ext fs p = WriteFile_fails ext fs' p) \<and>
          SplitYAML ext cfg rnd1 fs = (e1, fs1) \<longrightarrow>
            SplitYAML ext cfg rnd2 fs1 = (e1, fs1))"
proof -
  have r1: "SplitYAML ext cfg rnd1 fs = SplitYAML_data ext cfg rnd1 data fs"
    using assms(1) by (simp add: SplitYAML_def)
  have "SplitYAML ext cfg rnd2 fs1 = SplitYAML_data ext cfg rnd2 data fs1"
    using assms(2) by (simp add: SplitYAML_def)
  also have "\<dots> = SplitYAML_data ext cfg rnd1 data fs1"
    using assms(3,4) by (rule SplitYAML_data_same_encoding)
  finally have r2: "SplitYAML ext cfg rnd2 fs1 = SplitYAML_data ext cfg rnd1 data fs1" .
  have a: "SplitYAML ext cfg rnd1 fs = (None, fs1) \<and>
          SplitYAML ext cfg rnd2 fs1 = (None, fs2) \<longrightarrow> fs2 = fs1"
  proof
    assume "SplitYAML ext cfg rnd1 fs = (None, fs1) \<and> SplitYAML ext cfg rnd2 fs1 = (None, fs2)"
    then have "SplitYAML_data ext cfg rnd1 data fs = (None, fs1)"
      "SplitYAML_data ext cfg rnd1 data fs1 = (None, fs2)"
      unfolding r1 r2 by simp_all
    then show "fs2 = fs1" by (rule SplitYAML_data_twice_complete)
  qed
  have b: "(\<forall>fs fs' p. MkdirAll_fails ext fs p = MkdirAll_fails ext fs' p) \<and>
          (\<forall>fs fs' p. WriteFile_fails ext fs p = WriteFile_fails ext fs' p) \<and>
          SplitYAML ext cfg rnd1 fs = (e1, fs1) \<longrightarrow>
            SplitYAML ext cfg rnd2 fs1 = (e1, fs1)"
  proof
    assume h: "(\<forall>fs fs' p. MkdirAll_fails ext fs p = MkdirAll_fails ext fs' p) \<and>
          (\<forall>fs fs' p. WriteFile_fails ext fs p = WriteFile_fails ext fs' p) \<and>
          SplitYAML ext cfg rnd1 fs = (e1, fs1)"
    then have mk: "\<forall>fs fs' p. MkdirAll_fails ext fs p = MkdirAll_fails ext fs' p"
      and wr: "\<forall>fs fs' p. WriteFile_fails ext fs p = WriteFile_fails ext fs' p"
      and run: "SplitYAML_data ext cfg rnd1 data fs = (e1, fs1)"
      unfolding r1 by blast+
    from SplitYAML_data_twice_fixed_failures[OF mk wr, of cfg rnd1 data fs] run
    have "SplitYAML_data ext cfg rnd1 data fs1 = (e1, fs1)" by simp
    then show "SplitYAML ext cfg rnd2 fs1 = (e1, fs1)" unfolding r2 .
  qed
  from a b show ?thesis by (rule conjI)
qed

text \<open>
  The theorem on a bundle of four documents and a file system that never fails, in two
  runs in which the runtime hands out the keys in different orders.
\<close>

theorem SplitYAML_run_twice_same_encoding_witness:
  "ReadFile bundle_fs (cfg_Filename demo_config) = Inr ''N-CDc'' \<and>
   ReadFile bundle_done (cfg_Filename demo_config) = Inr ''N-CDc'' \<and>
   rnd1 0 \<noteq> rnd2 0 \<and>
   splitYAML toy_externals rnd2 ''N-CDc'' = splitYAML toy_externals rnd1 ''N-CDc'' \<and>
   SplitYAML toy_externals demo_config rnd1 bundle_fs = (None, bundle_done) \<and>
   SplitYAML toy_externals demo_config rnd2 bundle_done = (None, bundle_done) \<and>
   files bundle_done ''working/demo/ConfigMap_cfg.yaml'' =
     Some ''apiVersion kind metadata namespace: ns-c''"
proof -
  have 1: "ReadFile bundle_fs (cfg_Filename demo_config) = Inr ''N-CDc''"
    by (simp add: ReadFile_def bundle_fs_def)
  have 2: "ReadFile bundle_done (cfg_Filename demo_config) = Inr ''N-CDc''"
    by (simp add: ReadFile_def bundle_done_def)
  have 3: "splitYAML toy_externals rnd2 ''N-CDc'' = splitYAML toy_externals rnd1 ''N-CDc''"
    by (simp add: toy_splitYAML)
  have d: "docResult toy_externals demo_config order2 x =
      docResult toy_externals demo_config order1 x" if "x \<in> set [''N'', ''C'', ''D'', ''c'']" for x
    using that by (auto simp: toy_docResult)
  have 4: "\<forall>result. splitYAML toy_externals rnd1 ''N-CDc'' = Inr result \<longrightarrow>
           (\<forall>i<length result.
              docResult toy_externals demo_config (rnd2 (length result + i)) (result ! i) =
              docResult toy_externals demo_config (rnd1 (length result + i)) (result ! i))"
  proof (intro allI impI)
    fix result i
    assume "splitYAML toy_externals rnd1 ''N-CDc'' = Inr result" and i: "i < length result"
    then have r: "result = [''N'', ''C'', ''D'', ''c'']" by (simp add: toy_splitYAML)
    from i have "result ! i \<in> set result" by (rule nth_mem)
    then have "result ! i \<in> set [''N'', ''C'', ''D'', ''c'']" unfolding r .
    from d[OF this]
    show "docResult toy_externals demo_config (rnd2 (length result + i)) (result ! i) =
          docResult toy_externals demo_config (rnd1 (length result + i)) (result ! i)"
      by (simp add: rnd1_def rnd2_def)
  qed
  have io: "(\<forall>fs fs' p. MkdirAll_fails toy_externals fs p = MkdirAll_fails toy_externals fs' p) \<and>
    (\<forall>fs fs' p. WriteFile_fails toy_externals fs p = WriteFile_fails toy_externals fs' p)"
    by simp
  from SplitYAML_run_twice_same_encoding[OF 1 2 3 4, of bundle_done None] io toy_run(1)
  have 5: "SplitYAML toy_externals demo_config rnd2 bundle_done = (None, bundle_done)" by blast
  have 6: "rnd1 0 \<noteq> rnd2 0" by (simp add: rnd1_def rnd2_def order1_def order2_def)
  have 7: "files bundle_done ''working/demo/ConfigMap_cfg.yaml'' =
     Some ''apiVersion kind metadata namespace: ns-c''" by (simp add: bundle_done_def)
  from 1 2 6 3 toy_run(1) 5 7 show ?thesis by (intro conjI)
qed

text \<open>
  C9 as stated fails on a bundle whose manifest has the keys \<^verbatim>\<open>2\<close>, \<^verbatim>\<open>10\<close> and
  \<^verbatim>\<open>1a\<close>: both runs read the same bytes and complete, and the second leaves other
  bytes in the output file than the first.
\<close>

theorem SplitYAML_key_order_counterexample:
  "ReadFile secret_fs (cfg_Filename demo_config) = Inr ''-S'' \<and>
   SplitYAML toy_externals demo_config rnd1 secret_fs = (None, secret_done1) \<and>
   ReadFile secret_done1 (cfg_Filename demo_config) = Inr ''-S'' \<and>
   SplitYAML toy_externals demo_config rnd2 secret_done1 = (None, secret_done2) \<and>
   files secret_done1 ''working/demo/Secret_keys.yaml'' =
     Some ''2 10 1a apiVersion kind metadata namespace: vault'' \<and>
   files secret_done2 ''working/demo/Secret_keys.yaml'' =
     Some ''10 1a 2 apiVersion kind metadata namespace: vault'' \<and>
   secret_done2 \<noteq> secret_done1"
proof -
  have 1: "ReadFile secret_fs (cfg_Filename demo_config) = Inr ''-S''"
    by (simp add: ReadFile_def secret_fs_def)
  have 2: "ReadFile secret_done1 (cfg_Filename demo_config) = Inr ''-S''"
    by (simp add: ReadFile_def secret_done1_def)
  have 3: "files secret_done1 ''working/demo/Secret_keys.yaml'' =
     Some ''2 10 1a apiVersion kind metadata namespace: vault''"
    by (simp add: secret_done1_def)
  have 4: "files secret_done2 ''working/demo/Secret_keys.yaml'' =
     Some ''10 1a 2 apiVersion kind metadata namespace: vault''"
    by (simp add: secret_done2_def)
  have "files secret_done2 ''working/demo/Secret_keys.yaml'' \<noteq>
      files secret_done1 ''working/demo/Secret_keys.yaml''"
    unfolding 3 4 by simp
  then have 5: "secret_done2 \<noteq> secret_done1" by auto
  from 1 toy_run_secret(1) 2 toy_run_secret(2) 3 4 5 show ?thesis by (intro conjI)
qed

text \<open>
  C10 (amended). When the Line Sanitizer succeeds and its output holds no carriage return
  right before a newline, sanitizing that output again returns it unchanged.
\<close>

theorem clean_idempotent_without_CR:
  assumes ok: "clean input = Inr out" and nocr: "\<not> sublist [CR, LF] out"
  shows "clean out = Inr out"
proof -
  define kept where "kept = filter (\<lambda>l. \<not> skipLine l) (map dropCR (rawLines input))"
  have short: "\<forall>l\<in>set (rawLines input). length l < maxScanTokenSize"
    using ok by (rule clean_Inr_short)
  have "clean input = Inr (render kept)"
    unfolding kept_def clean_def using clean_loop_lines[OF short, of "[]"] by simp
  with ok have out: "out = render kept" by simp
  have from_raw: "\<exists>r\<in>set (rawLines input). l = dropCR r" if "l \<in> set kept" for l
    using that unfolding kept_def by auto
  have noLF: "\<forall>l\<in>set kept. LF \<notin> set l"
  proof
    fix l assume "l \<in> set kept"
    then obtain r where "r \<in> set (rawLines input)" "l = dropCR r"
      using from_raw by blast
    then show "LF \<notin> set l" by (simp add: rawLines_no_LF dropCR_no_LF)
  qed
  have rl: "rawLines out = kept"
    unfolding out using noLF by (rule rawLines_render)
  have short': "\<forall>l\<in>set (rawLines out). length l < maxScanTokenSize"
  proof
    fix l assume "l \<in> set (rawLines out)"
    then obtain r where r: "r \<in> set (rawLines input)" "l = dropCR r"
      using from_raw rl by auto
    have "length l \<le> length r" unfolding r(2) by (rule length_dropCR)
    also have "length r < maxScanTokenSize" using short r(1) by blast
    finally show "length l < maxScanTokenSize" .
  qed
  have same: "map dropCR kept = kept"
  proof (rule map_idI)
    fix l assume "l \<in> set kept"
    with nocr show "dropCR l = l" unfolding out by (rule no_CRLF_dropCR)
  qed
  have keep: "filter (\<lambda>l. \<not> skipLine l) kept = kept"
    unfolding kept_def by simp
  have "clean out = Inr (render (filter (\<lambda>l. \<not> skipLine l) (map dropCR (rawLines out))))"
    unfolding clean_def using clean_loop_lines[OF short', of "[]"] by simp
  also have "\<dots> = Inr (render kept)"
    unfolding rl same keep ..
  finally show ?thesis unfolding out .
qed

text \<open>
  The theorem at an input with a comment line and a CR-LF line ending.
\<close>

theorem clean_idempotent_without_CR_witness:
  "clean (''a'' @ [CR, LF] @ ''# b'' @ [LF] @ ''c'') = Inr (''a'' @ [LF] @ ''c'' @ [LF]) \<and>
   \<not> sublist [CR, LF] (''a'' @ [LF] @ ''c'' @ [LF]) \<and>
   clean (''a'' @ [LF] @ ''c'' @ [LF]) = Inr (''a'' @ [LF] @ ''c'' @ [LF])"
proof -
  have n: "\<not> sublist [CR, LF] (''a'' @ [LF] @ ''c'' @ [LF])"
    by (simp add: contains_iff[symmetric] hasPrefix_def)
  show ?thesis
    using witness_clean n clean_idempotent_without_CR[OF witness_clean n] by simp
qed

text \<open>
  C10 as stated fails on a line that ends in two carriage returns: each pass drops one.
\<close>

theorem clean_not_idempotent_counterexample:
  "clean [CR, CR, LF] = Inr [CR, LF] \<and> clean [CR, LF] \<noteq> Inr [CR, LF]"
  by (simp add: clean_CR_CR_LF clean_CR_LF)

text \<open>
  Beyond the claims: a sanitized document that is empty or null decodes into a nil map
  without an error, and for a namespace-scoped kind the assignment of line 131 then
  panics; the Normalizer returns no output.
\<close>

theorem normalize_nil_map_panics:
  assumes "yaml_Unmarshal_map ext cleanres = Inr None"
    and "yaml_Unmarshal_k8sObject ext cleanres = Inr metadataObject"
    and "\<not> IsClusterScoped ext (Kind metadataObject) (APIVersion metadataObject)"
    and "Namespace (Metadata metadataObject) = []"
  shows "normalize ext r ns cleanres = Inl NilMapPanic"
  using assms by (simp add: normalize_def prepare_def setNamespace_def Let_def)

text \<open>
  The theorem on a document of which the Sanitizer leaves nothing.
\<close>

theorem normalize_nil_map_panics_witness:
  "yaml_Unmarshal_map toy_externals [] = Inr None \<and>
   yaml_Unmarshal_k8sObject toy_externals [] = Inr (toy_object []) \<and>
   \<not> IsClusterScoped toy_externals (Kind (toy_object [])) (APIVersion (toy_object [])) \<and>
   Namespace (Metadata (toy_object [])) = [] \<and>
   clean ''# only a comment'' = Inr [] \<and>
   normalize toy_externals order1 ''prod'' [] = Inl NilMapPanic"
proof -
  have c: "clean ''# only a comment'' = Inr []"
    using clean_loop_eval(3)[of "''# only a comment''" "[]"]
    by (simp add: clean_def maxScanTokenSize_def dropCR_def skipLine_trimLeft trimLeft_no_space
        leadingSpace_def whiteSpace_def hasPrefix_def)
  from normalize_nil_map_panics[OF toy_empty_document, of order1 "''prod''"] toy_empty_document c
  show ?thesis by simp
qed

end
